theory Spec2Isabelle
  imports Main "HOL-Library.Word"
begin

unbundle bit_operations_syntax

section \<open>The mark store of hpoon (main.go)\<close>

text \<open>
  Go strings are byte sequences, so a Go \<open>string\<close> is a \<open>char list\<close> here (an Isabelle
  \<open>char\<close> is one byte). The state is the part of the operating system the program
  touches: the store file (\<open>None\<close> when absent, \<open>Some content\<close> otherwise), what was
  reported on standard error, and what \<open>os.Stat\<close>, \<open>os.Getwd\<close> and \<open>filepath.Abs\<close>
  answer for the other paths. Failures of the operating system to create, write or read the
  store file for lack of permission or space are not part of the model.
\<close>

subsection \<open>Constants\<close>

definition LAST_MARKED_KEY :: string where
  "LAST_MARKED_KEY = ''_''"

text \<open>\<open>KV_SEPERATOR\<close> is the one-byte string \<open>"/"\<close>; it is kept as that byte.\<close>

definition KV_SEPERATOR :: char where
  "KV_SEPERATOR = CHR ''/''"

definition NAME_REF :: string where
  "NAME_REF = ''!''"

subsection \<open>Library functions used by main.go\<close>

text \<open>
  \<open>strings.Split(s, sep)\<close> for a one-byte separator: the pieces between the occurrences
  of the separator, one more piece than there are separators.
\<close>

fun Split :: "string \<Rightarrow> char \<Rightarrow> string list" where
  "Split [] sep = [[]]"
| "Split (c # cs) sep =
     (if c = sep then [] # Split cs sep
      else (case Split cs sep of
              [] \<Rightarrow> [[c]]
            | p # ps \<Rightarrow> (c # p) # ps))"

text \<open>
  \<open>base64.StdEncoding\<close>: the alphabet of RFC 4648, padding with \<open>=\<close>, decoding not
  strict. \<open>encodeStd\<close> is the alphabet, \<open>decodeMap\<close> its inverse table
  (\<open>None\<close> where Go's table holds \<open>0xff\<close>).
\<close>

definition encodeStd :: string where
  "encodeStd = ''ABCDEFGHIJKLMNOPQRSTUVWXYZabcdefghijklmnopqrstuvwxyz0123456789+/''"

definition padChar :: char where
  "padChar = CHR ''=''"

definition encode :: "nat \<Rightarrow> char" where
  "encode i = encodeStd ! i"

definition decodeMap :: "char \<Rightarrow> nat option" where
  "decodeMap c = map_of (zip encodeStd [0 ..< 64]) c"

text \<open>
  \<open>Encoding.EncodeToString\<close>: three source bytes give four characters; a remainder of
  one or two bytes gives two or three characters and padding. \<open>val\<close> is Go's
  \<open>uint\<close>, which here never exceeds 24 bits.
\<close>

fun EncodeToString :: "string \<Rightarrow> string" where
  "EncodeToString (a # b # c # rest) =
     (let val = push_bit 16 (of_char a) OR push_bit 8 (of_char b) OR of_char c :: nat
      in [encode (drop_bit 18 val AND 0x3F), encode (drop_bit 12 val AND 0x3F),
          encode (drop_bit 6 val AND 0x3F), encode (val AND 0x3F)])
     @ EncodeToString rest"
| "EncodeToString [a, b] =
     (let val = push_bit 16 (of_char a) OR push_bit 8 (of_char b) :: nat
      in [encode (drop_bit 18 val AND 0x3F), encode (drop_bit 12 val AND 0x3F),
          encode (drop_bit 6 val AND 0x3F), padChar])"
| "EncodeToString [a] =
     (let val = push_bit 16 (of_char a) :: nat
      in [encode (drop_bit 18 val AND 0x3F), encode (drop_bit 12 val AND 0x3F),
          padChar, padChar])"
| "EncodeToString [] = []"

text \<open>
  The end of \<open>decodeQuantum\<close>: the sextets read are packed into 24 bits and the first
  \<open>dlen - 1\<close> bytes are kept. Go's \<open>dbuf\<close> is a zeroed array of four, so a sextet
  that was not read is 0 (\<open>dbuf_at\<close>). The encoding is not strict, so the
  bits that are dropped are not checked.
\<close>

definition is_newline :: "char \<Rightarrow> bool" where
  "is_newline c \<longleftrightarrow> c = CHR 0x0A \<or> c = CHR 0x0D"

definition dbuf_at :: "nat list \<Rightarrow> nat \<Rightarrow> nat" where
  "dbuf_at dbuf j = (if j < length dbuf then dbuf ! j else 0)"

definition quantum_bytes :: "nat list \<Rightarrow> string" where
  "quantum_bytes dbuf =
     (let val = push_bit 18 (dbuf_at dbuf 0) OR push_bit 12 (dbuf_at dbuf 1)
                OR push_bit 6 (dbuf_at dbuf 2) OR dbuf_at dbuf 3
      in take (length dbuf - 1)
           [char_of (drop_bit 16 val), char_of (drop_bit 8 val), char_of val])"

fun skip_newlines :: "string \<Rightarrow> string" where
  "skip_newlines [] = []"
| "skip_newlines (c # cs) = (if is_newline c then skip_newlines cs else c # cs)"

datatype line_error =
    InvalidFormat string
  | CorruptInputError

text \<open>
  \<open>decodeQuantum\<close>: \<open>dbuf\<close> holds the sextets read so far (Go's \<open>j\<close> is its length).
  The result is the bytes decoded and the input left. Newlines and carriage returns are
  skipped; padding is accepted only after two or three sextets, must be complete, and
  may be followed by newlines only.
\<close>

fun decodeQuantum :: "nat list \<Rightarrow> string \<Rightarrow> line_error + string \<times> string" where
  "decodeQuantum dbuf [] =
     (if dbuf = [] then Inr ([], []) else Inl CorruptInputError)"
| "decodeQuantum dbuf (c # cs) =
     (case decodeMap c of
        Some out \<Rightarrow>
          (if length dbuf = 3 then Inr (quantum_bytes (dbuf @ [out]), cs)
           else decodeQuantum (dbuf @ [out]) cs)
      | None \<Rightarrow>
          if is_newline c then decodeQuantum dbuf cs
          else if c \<noteq> padChar then Inl CorruptInputError
          else if length dbuf < 2 then Inl CorruptInputError
          else if length dbuf = 2 then
            (case skip_newlines cs of
               [] \<Rightarrow> Inl CorruptInputError
             | c' # cs' \<Rightarrow>
                 if c' \<noteq> padChar then Inl CorruptInputError
                 else if skip_newlines cs' \<noteq> [] then Inl CorruptInputError
                 else Inr (quantum_bytes dbuf, []))
          else if skip_newlines cs \<noteq> [] then Inl CorruptInputError
          else Inr (quantum_bytes dbuf, []))"

text \<open>\<open>Encoding.DecodeString\<close>: quantum after quantum until the input is used up.\<close>

function DecodeString :: "string \<Rightarrow> line_error + string" where
  "DecodeString src =
     (if src = [] then Inr []
      else (case decodeQuantum [] src of
              Inl e \<Rightarrow> Inl e
            | Inr (bs, rest) \<Rightarrow>
                (case DecodeString rest of
                   Inl e \<Rightarrow> Inl e
                 | Inr bs' \<Rightarrow> Inr (bs @ bs'))))"
  by pat_completeness auto
termination
proof (relation "measure length")
  fix src :: string and x2 x y
  assume src: "src \<noteq> []" and dq: "decodeQuantum [] src = Inr x2" and x2: "(x, y) = x2"
  have shorter: "decodeQuantum dbuf s = Inr (bs, rest) \<Longrightarrow> length rest \<le> length s"
    for dbuf s bs rest
    by (induction dbuf s rule: decodeQuantum.induct)
       (auto split: option.splits if_splits list.splits)
  from src obtain c cs where c: "src = c # cs"
    by (cases src) auto
  from dq x2 have "decodeQuantum [] (c # cs) = Inr (x, y)"
    by (simp add: c)
  then have "length y \<le> length cs"
    by (auto split: option.splits if_splits list.splits dest: shorter)
  then show "(y, src) \<in> measure length"
    by (simp add: c)
qed simp

declare DecodeString.simps [simp del]

subsection \<open>The record codec\<close>

text \<open>\<open>parse_hpoon_line\<close>: split at the separator, exactly two parts, decode the second.\<close>

definition parse_hpoon_line :: "string \<Rightarrow> line_error + string \<times> string" where
  "parse_hpoon_line line =
     (let parts = Split line KV_SEPERATOR in
      if length parts \<noteq> 2 then Inl (InvalidFormat line)
      else
        let key = parts ! 0; val = parts ! 1 in
        (case DecodeString val of
           Inl e \<Rightarrow> Inl e
         | Inr decoded_bytes \<Rightarrow> Inr (key, decoded_bytes)))"

definition create_hpoon_line :: "string \<Rightarrow> string \<Rightarrow> string" where
  "create_hpoon_line key val =
     (let encoded_string = EncodeToString val
      in key @ [KV_SEPERATOR] @ encoded_string)"


subsection \<open>The record, the errors and the state\<close>

record HarpoonRecord =
  last_marked :: string
  marks :: "string \<rightharpoonup> string"

text \<open>
  The ways a command ends with status 1: the calls of \<open>quit\<close>, and the error that
  \<open>hpoon_get_mark\<close> returns and its callers print before \<open>os.Exit(1)\<close>.
\<close>

datatype error =
    ReadError
  | ParseError
  | MarkDoesNotExist string
  | NotSure string
  | FilepathDoesntExist string
  | ShortHelp

record world =
  GOOS :: string
  store_file :: "string option"
  stderr :: "line_error list"
  path_exists :: "string \<Rightarrow> bool"
  Getwd :: string
  Abs :: "string \<Rightarrow> string option"

datatype printed = NoOutput | Print string | PrintHelp

definition get_hpoon_file :: "world \<Rightarrow> string" where
  "get_hpoon_file w =
     (if GOOS w = ''windows''
      then ''C:'' @ [CHR 0x5C] @ ''Windows'' @ [CHR 0x5C] @ ''Temp'' @ [CHR 0x5C] @ ''hpoon''
      else ''/tmp/hpoon'')"

text \<open>
  \<open>check_path_exists\<close>: for the store file the answer is read off the state, for every
  other path it is the answer of the operating system.
\<close>

definition check_path_exists :: "world \<Rightarrow> string \<Rightarrow> bool" where
  "check_path_exists w fpath =
     (if fpath = get_hpoon_file w then store_file w \<noteq> None else path_exists w fpath)"

subsection \<open>Reading the store file\<close>

text \<open>
  \<open>bufio.Scanner\<close> with its default split function \<open>ScanLines\<close>: the input is cut at
  each newline, a last piece without newline is a line if it is not empty, and one trailing
  carriage return is dropped from each line (\<open>dropCR\<close>). The scanner's buffer grows to
  \<open>MaxScanTokenSize\<close> bytes at most: at the first line that has that many bytes before
  its newline, \<open>Scan\<close> returns false and \<open>Err\<close> is \<open>ErrTooLong\<close>. \<open>Scan\<close> gives the
  lines delivered and whether the scanner ended with that error.
\<close>

definition MaxScanTokenSize :: nat where
  "MaxScanTokenSize = 64 * 1024"

definition dropCR :: "string \<Rightarrow> string" where
  "dropCR data = (if data \<noteq> [] \<and> last data = CHR 0x0D then butlast data else data)"

definition raw_lines :: "string \<Rightarrow> string list" where
  "raw_lines content =
     (let pieces = Split content (CHR 0x0A)
      in if last pieces = [] then butlast pieces else pieces)"

definition too_long :: "string \<Rightarrow> bool" where
  "too_long l \<longleftrightarrow> MaxScanTokenSize \<le> length l"

definition Scan :: "string \<Rightarrow> string list \<times> bool" where
  "Scan content =
     (let raw = raw_lines content
      in (map dropCR (takeWhile (\<lambda>l. \<not> too_long l) raw), \<exists>l \<in> set raw. too_long l))"

text \<open>
  The loop of \<open>read_hpoon_file\<close> over the lines scanned: a line that does not parse is
  reported and skipped, the reserved key sets \<open>last_marked\<close> (here \<open>lm\<close>), any other
  key is stored in the map.
\<close>

fun scan_loop ::
  "string list \<Rightarrow> line_error list \<Rightarrow> string \<Rightarrow> (string \<rightharpoonup> string)
    \<Rightarrow> line_error list \<times> string \<times> (string \<rightharpoonup> string)" where
  "scan_loop [] reports lm data = (reports, lm, data)"
| "scan_loop (line # rest) reports lm data =
     (case parse_hpoon_line line of
        Inl e \<Rightarrow> scan_loop rest (reports @ [e]) lm data
      | Inr (key, val) \<Rightarrow>
          if key = LAST_MARKED_KEY then scan_loop rest reports val data
          else scan_loop rest reports lm (data(key \<mapsto> val)))"

definition read_hpoon_file :: "world \<Rightarrow> (error + HarpoonRecord) \<times> world" where
  "read_hpoon_file w =
     (case store_file w of
        None \<Rightarrow> (Inl ReadError, w)
      | Some content \<Rightarrow>
          (case Scan content of (lines, scan_err) \<Rightarrow>
           (case scan_loop lines [] [] Map.empty of (reports, lm, data) \<Rightarrow>
              let w' = w\<lparr>stderr := stderr w @ reports\<rparr> in
              if scan_err then (Inl ParseError, w')
              else (Inr \<lparr>last_marked = lm, marks = data\<rparr>, w'))))"

subsection \<open>Writing the store file\<close>

definition non_value :: "string \<Rightarrow> bool" where
  "non_value v \<longleftrightarrow> v = []"

text \<open>
  Go's \<open>range\<close> over a map visits every key once, in an order that is not specified.
  The order is a parameter: \<open>ks\<close> is the list of keys as the loop visits them, and
  \<open>range_order ks m\<close> says that \<open>ks\<close> is such an order for the map \<open>m\<close>.
\<close>

definition range_order :: "string list \<Rightarrow> (string \<rightharpoonup> string) \<Rightarrow> bool" where
  "range_order ks m \<longleftrightarrow> distinct ks \<and> set ks = dom m"

fun write_marks :: "string list \<Rightarrow> (string \<rightharpoonup> string) \<Rightarrow> string" where
  "write_marks [] m = []"
| "write_marks (key # ks) m =
     (case m key of
        None \<Rightarrow> write_marks ks m
      | Some val \<Rightarrow>
          if non_value val then write_marks ks m
          else create_hpoon_line key val @ [CHR 0x0A] @ write_marks ks m)"

text \<open>\<open>os.Create\<close> truncates the file; with an empty \<open>last_marked\<close> nothing is written.\<close>

definition write_hpoon_file :: "string list \<Rightarrow> HarpoonRecord \<Rightarrow> world \<Rightarrow> world" where
  "write_hpoon_file ks data w =
     (if non_value (last_marked data) then w\<lparr>store_file := Some []\<rparr>
      else
        let last_marked_line = create_hpoon_line LAST_MARKED_KEY (last_marked data)
        in w\<lparr>store_file := Some (last_marked_line @ [CHR 0x0A] @ write_marks ks (marks data))\<rparr>)"

definition load_hpoon :: "world \<Rightarrow> (error + HarpoonRecord) \<times> world" where
  "load_hpoon w =
     (let w' = (if \<not> check_path_exists w (get_hpoon_file w) then w\<lparr>store_file := Some []\<rparr>
                else w)
      in read_hpoon_file w')"

definition save_hpoon :: "string list \<Rightarrow> HarpoonRecord \<Rightarrow> world \<Rightarrow> world" where
  "save_hpoon ks data w = write_hpoon_file ks data w"

subsection \<open>The commands\<close>

definition hpoon_set_mark ::
  "string list \<Rightarrow> string \<Rightarrow> string option \<Rightarrow> world \<Rightarrow> (error + unit) \<times> world" where
  "hpoon_set_mark ks fpath name w =
     (case load_hpoon w of
        (Inl e, w') \<Rightarrow> (Inl e, w')
      | (Inr data, w') \<Rightarrow>
          let data = data\<lparr>last_marked := fpath\<rparr>;
              data = (case name of
                        None \<Rightarrow> data
                      | Some n \<Rightarrow> data\<lparr>marks := (marks data)(n \<mapsto> fpath)\<rparr>)
          in (Inr (), save_hpoon ks data w'))"

definition hpoon_get_mark :: "string option \<Rightarrow> world \<Rightarrow> (error + string) \<times> world" where
  "hpoon_get_mark name w =
     (case load_hpoon w of
        (Inl e, w') \<Rightarrow> (Inl e, w')
      | (Inr data, w') \<Rightarrow>
          (case name of
             None \<Rightarrow> (Inr (last_marked data), w')
           | Some n \<Rightarrow>
               (case marks data n of
                  None \<Rightarrow> (Inl (MarkDoesNotExist n), w')
                | Some val \<Rightarrow> (Inr val, w'))))"

definition run_no_arg :: "world \<Rightarrow> (error + printed) \<times> world" where
  "run_no_arg w =
     (case hpoon_get_mark None w of
        (Inl e, w') \<Rightarrow> (Inl e, w')
      | (Inr mark, w') \<Rightarrow> (Inr (Print mark), w'))"

definition check_name_ref :: "string \<Rightarrow> bool" where
  "check_name_ref arg \<longleftrightarrow> take (length NAME_REF) arg = NAME_REF"

definition hpoon_out_mark_at :: "string \<Rightarrow> world \<Rightarrow> (error + printed) \<times> world" where
  "hpoon_out_mark_at arg w =
     (let name = drop (length NAME_REF) arg in
      case hpoon_get_mark (Some name) w of
        (Inl e, w') \<Rightarrow> (Inl e, w')
      | (Inr mark, w') \<Rightarrow> (Inr (Print mark), w'))"

fun list_output :: "string list \<Rightarrow> (string \<rightharpoonup> string) \<Rightarrow> string" where
  "list_output [] m = []"
| "list_output (mark # ks) m =
     (case m mark of
        None \<Rightarrow> list_output ks m
      | Some path \<Rightarrow> mark @ '': '' @ path @ [CHR 0x0A] @ list_output ks m)"

definition hpoon_list :: "string list \<Rightarrow> world \<Rightarrow> (error + printed) \<times> world" where
  "hpoon_list ks w =
     (case load_hpoon w of
        (Inl e, w') \<Rightarrow> (Inl e, w')
      | (Inr rec, w') \<Rightarrow> (Inr (Print (list_output ks (marks rec))), w'))"

text \<open>\<open>os.Remove\<close>; its error, as for a file that is not there, is ignored.\<close>

definition hpoon_clean :: "world \<Rightarrow> world" where
  "hpoon_clean w = w\<lparr>store_file := None\<rparr>"

text \<open>A command that prints nothing: the outcome of \<open>hpoon_set_mark\<close>, with no output.\<close>

definition quiet :: "(error + unit) \<times> world \<Rightarrow> (error + printed) \<times> world" where
  "quiet r = (case r of (Inl e, w') \<Rightarrow> (Inl e, w') | (Inr u, w') \<Rightarrow> (Inr NoOutput, w'))"

definition run_single_arg :: "string list \<Rightarrow> string \<Rightarrow> world \<Rightarrow> (error + printed) \<times> world" where
  "run_single_arg ks arg w =
     (if arg = ''-h'' \<or> arg = ''--help'' then (Inr PrintHelp, w)
      else if arg = ''clean'' then (Inr NoOutput, hpoon_clean w)
      else if arg = ''list'' then hpoon_list ks w
      else if check_name_ref arg then hpoon_out_mark_at arg w
      else
        (case Abs w arg of
           None \<Rightarrow> (Inl (NotSure arg), w)
         | Some path \<Rightarrow>
             if check_path_exists w path then quiet (hpoon_set_mark ks path None w)
             else (Inl (FilepathDoesntExist path), w)))"

definition run_double_arg ::
  "string list \<Rightarrow> string \<Rightarrow> string \<Rightarrow> world \<Rightarrow> (error + printed) \<times> world" where
  "run_double_arg ks arg name w =
     (if \<not> check_path_exists w arg then (Inl (FilepathDoesntExist arg), w)
      else
        let arg = (if arg = ''.'' then Getwd w else arg)
        in quiet (hpoon_set_mark ks arg (Some name) w))"

text \<open>\<open>main\<close>, on \<open>os.Args\<close> without the program's name.\<close>

fun main :: "string list \<Rightarrow> string list \<Rightarrow> world \<Rightarrow> (error + printed) \<times> world" where
  "main ks [] w = run_no_arg w"
| "main ks [arg] w = run_single_arg ks arg w"
| "main ks [arg, name] w = run_double_arg ks arg name w"
| "main ks args w = (Inl ShortHelp, w)"


subsection \<open>Vocabulary of the properties\<close>

text \<open>
  The content of the store file (empty when the file is absent, as \<open>load_hpoon\<close> creates
  it), the lines the scanner delivers from it, and whether the scanner reaches the end of
  the file, that is, whether every line has fewer than \<open>MaxScanTokenSize\<close> bytes.
\<close>

definition store_content :: "world \<Rightarrow> string" where
  "store_content w = (case store_file w of None \<Rightarrow> [] | Some content \<Rightarrow> content)"

definition stored_lines :: "world \<Rightarrow> string list" where
  "stored_lines w = fst (Scan (store_content w))"

definition scannable :: "world \<Rightarrow> bool" where
  "scannable w \<longleftrightarrow> \<not> snd (Scan (store_content w))"

text \<open>
  Of a list of lines: the errors of the lines that do not parse, in order, and the values
  of the lines that parse with a given key (the well-formed lines of that key), in order.
\<close>

definition line_errors :: "string list \<Rightarrow> line_error list" where
  "line_errors ls =
     List.map_filter (\<lambda>l. case parse_hpoon_line l of Inl e \<Rightarrow> Some e | Inr kv \<Rightarrow> None) ls"

definition well_formed_values :: "string \<Rightarrow> string list \<Rightarrow> string list" where
  "well_formed_values key ls =
     List.map_filter
       (\<lambda>l. case parse_hpoon_line l of
              Inl e \<Rightarrow> None
            | Inr (k, v) \<Rightarrow> if k = key then Some v else None) ls"

text \<open>The record that \<open>load_hpoon\<close> returns when the scanner reaches the end of the file.\<close>

definition loaded :: "world \<Rightarrow> HarpoonRecord" where
  "loaded w =
     \<lparr>last_marked =
        (if well_formed_values LAST_MARKED_KEY (stored_lines w) = [] then []
         else last (well_formed_values LAST_MARKED_KEY (stored_lines w))),
      marks =
        (\<lambda>k. if k \<noteq> LAST_MARKED_KEY \<and> well_formed_values k (stored_lines w) \<noteq> []
             then Some (last (well_formed_values k (stored_lines w))) else None)\<rparr>"

subsection \<open>An example store\<close>

text \<open>
  A machine on which every path exists, and a store file of four lines: one that is
  malformed, the name \<open>x\<close> marked as \<open>a\<close>, the last mark \<open>b\<close>, and \<open>x\<close> marked again, as
  \<open>c\<close>.
\<close>

definition example_world :: "string option \<Rightarrow> world" where
  "example_world file =
     \<lparr>GOOS = ''linux'', store_file = file, stderr = [], path_exists = (\<lambda>p. True),
      Getwd = ''/home/u'', Abs = (\<lambda>p. Some (''/home/u/'' @ p))\<rparr>"

definition example_content :: string where
  "example_content =
     ''junk'' @ [CHR 0x0A] @ ''x/YQ=='' @ [CHR 0x0A] @ ''_/Yg=='' @ [CHR 0x0A]
     @ ''x/Yw=='' @ [CHR 0x0A]"

section \<open>Properties\<close>

subsection \<open>Base64: decoding an encoding\<close>

lemma or_plus:
  fixes a b :: nat
  assumes "a < 2 ^ n"
  shows "push_bit n b OR a = b * 2 ^ n + a"
proof -
  have "\<not> bit a k" if "n \<le> k" for k
  proof -
    have "(2::nat) ^ n \<le> 2 ^ k" using that by simp
    with assms have "a < 2 ^ k" by linarith
    then have "a div 2 ^ k = 0" by simp
    then show ?thesis by (simp add: bit_iff_odd)
  qed
  then have "push_bit n b AND a = 0"
    by (intro bit_eqI) (auto simp: bit_and_iff bit_push_bit_iff)
  then have "push_bit n b + a = push_bit n b OR a"
    by (rule disjunctive_add_eq_or)
  then show ?thesis by (simp add: push_bit_eq_mult)
qed

lemma and_0x3F: "(x::nat) AND 0x3F = x mod 64"
proof -
  have "(0x3F::nat) = mask 6" by (simp add: mask_eq_exp_minus_1)
  then have "x AND 0x3F = take_bit 6 x" by (simp add: take_bit_eq_mask)
  then show ?thesis by (simp add: take_bit_eq_mod)
qed

lemma length_encodeStd: "length encodeStd = 64"
  by (simp add: encodeStd_def)

lemma distinct_encodeStd: "distinct encodeStd"
  by (simp add: encodeStd_def)

lemma decodeMap_encode: "i < 64 \<Longrightarrow> decodeMap (encode i) = Some i"
  unfolding decodeMap_def encode_def
  using map_of_zip_nth [of encodeStd "[0 ..< 64]" i]
  by (simp add: length_encodeStd distinct_encodeStd)

lemma decodeMap_padChar: "decodeMap padChar = None"
  by (simp add: decodeMap_def padChar_def encodeStd_def map_of_eq_None_iff upt_rec)

lemma decodeMap_newline: "is_newline c \<Longrightarrow> decodeMap c = None"
proof -
  have "decodeMap (CHR 0x0A) = None"
    by (simp add: decodeMap_def encodeStd_def map_of_eq_None_iff upt_rec)
  moreover have "decodeMap (CHR 0x0D) = None"
    by (simp add: decodeMap_def encodeStd_def map_of_eq_None_iff upt_rec)
  ultimately show "is_newline c \<Longrightarrow> decodeMap c = None"
    unfolding is_newline_def by blast
qed

lemma pack3:
  fixes a b c :: nat
  assumes "a < 256" "b < 256" "c < 256"
  shows "push_bit 16 a OR push_bit 8 b OR c = a * 65536 + b * 256 + c"
proof -
  have "push_bit 8 b OR c = b * 256 + c"
    using or_plus [of c 8 b] assms by simp
  moreover have "push_bit 16 a OR (b * 256 + c) = a * 65536 + (b * 256 + c)"
    using or_plus [of "b * 256 + c" 16 a] assms by simp
  ultimately show ?thesis by (simp add: or.assoc)
qed

lemma pack4:
  fixes s0 s1 s2 s3 :: nat
  assumes "s1 < 64" "s2 < 64" "s3 < 64"
  shows "push_bit 18 s0 OR push_bit 12 s1 OR push_bit 6 s2 OR s3
         = s0 * 262144 + s1 * 4096 + s2 * 64 + s3"
proof -
  have "push_bit 6 s2 OR s3 = s2 * 64 + s3"
    using or_plus [of s3 6 s2] assms by simp
  moreover have "push_bit 12 s1 OR (s2 * 64 + s3) = s1 * 4096 + (s2 * 64 + s3)"
    using or_plus [of "s2 * 64 + s3" 12 s1] assms by simp
  moreover have "push_bit 18 s0 OR (s1 * 4096 + (s2 * 64 + s3)) = s0 * 262144 + (s1 * 4096 + (s2 * 64 + s3))"
    using or_plus [of "s1 * 4096 + (s2 * 64 + s3)" 18 s0] assms by simp
  ultimately show ?thesis by (simp add: or.assoc)
qed

lemma dm: 
  fixes q c n :: nat
  assumes "c < n"
  shows "(q * n + c) div n = q" and "(q * n + c) mod n = c"
  using assms by simp_all

lemma bytes_of_val:
  fixes a b c :: nat
  assumes "a < 256" "b < 256" "c < 256"
  defines "v \<equiv> a * 65536 + b * 256 + c"
  shows "v div 65536 mod 256 = a" and "v div 256 mod 256 = b" and "v mod 256 = c"
proof -
  have v1: "v = (a * 256 + b) * 256 + c" by (simp add: v_def)
  have v2: "v = a * 65536 + (b * 256 + c)" by (simp add: v_def)
  have "b * 256 + c < 65536" using assms by simp
  then have "v div 65536 = a" unfolding v2 by (rule dm(1))
  then show "v div 65536 mod 256 = a" using assms by simp
  have "v div 256 = a * 256 + b" unfolding v1 using assms(3) by (rule dm(1))
  then show "v div 256 mod 256 = b" using assms(2) by (simp only: dm(2))
  show "v mod 256 = c" unfolding v1 using assms(3) by (rule dm(2))
qed

lemma sextets:
  fixes a b c :: nat
  assumes "a < 256" "b < 256" "c < 256"
  defines "v \<equiv> a * 65536 + b * 256 + c"
  shows "(v div 262144 mod 64) * 262144 + (v div 4096 mod 64) * 4096 + (v div 64 mod 64) * 64 + v mod 64 = v"
proof -
  define q1 r1 q2 r2 q3 r3
    where "q1 = v div 64" and "r1 = v mod 64" and "q2 = v div 4096" and "r2 = v div 64 mod 64"
      and "q3 = v div 262144" and "r3 = v div 4096 mod 64"
  have d2: "v div 64 div 64 = v div 4096"
    using div_mult2_eq [of v 64 64] by simp
  have d3: "v div 4096 div 64 = v div 262144"
    using div_mult2_eq [of v 4096 64] by simp
  have e1: "v = q1 * 64 + r1"
    unfolding q1_def r1_def by simp
  have e2: "q1 = q2 * 64 + r2"
    unfolding q1_def q2_def r2_def d2 [symmetric] by simp
  have e3: "q2 = q3 * 64 + r3"
    unfolding q2_def q3_def r3_def d3 [symmetric] by simp
  have "v < 16777216" using assms by (simp add: v_def)
  then have "q3 < 64" unfolding q3_def by simp
  then have m: "q3 mod 64 = q3" by simp
  have "q3 * 262144 + r3 * 4096 + r2 * 64 + r1 = v"
    using e1 e2 e3 by linarith
  then show ?thesis
    unfolding q3_def [symmetric] r3_def [symmetric] r2_def [symmetric] r1_def [symmetric] m .
qed

lemma repack:
  fixes a b c :: nat
  assumes "a < 256" "b < 256" "c < 256"
  defines "v \<equiv> a * 65536 + b * 256 + c"
  shows "push_bit 18 (v div 262144 mod 64) OR push_bit 12 (v div 4096 mod 64)
           OR push_bit 6 (v div 64 mod 64) OR v mod 64 = v"
proof -
  have "push_bit 18 (v div 262144 mod 64) OR push_bit 12 (v div 4096 mod 64)
           OR push_bit 6 (v div 64 mod 64) OR v mod 64
        = (v div 262144 mod 64) * 262144 + (v div 4096 mod 64) * 4096
           + (v div 64 mod 64) * 64 + v mod 64"
    by (rule pack4) simp_all
  also have "\<dots> = v"
    unfolding v_def using assms(1-3) by (rule sextets)
  finally show ?thesis .
qed

lemma char_of_byte':
  fixes n :: nat
  assumes "n mod 256 = of_char c"
  shows "char_of n = c"
proof -
  have "char_of (n mod 256) = (char_of n :: char)"
    by (rule char_of_mod_256)
  then show ?thesis by (simp only: assms char_of_char)
qed

lemma decode_bytes:
  fixes a b c :: char
  defines "v \<equiv> of_char a * 65536 + of_char b * 256 + of_char c :: nat"
  defines "w \<equiv> push_bit 18 (v div 262144 mod 64) OR push_bit 12 (v div 4096 mod 64)
           OR push_bit 6 (v div 64 mod 64) OR v mod 64"
  shows "char_of (w div 65536) = a" and "char_of (w div 256) = b" and "char_of w = c"
proof -
  have lt: "(of_char a :: nat) < 256" "(of_char b :: nat) < 256" "(of_char c :: nat) < 256"
    by simp_all
  have w: "w = v"
    unfolding w_def v_def using lt by (rule repack)
  have "v div 65536 mod 256 = of_char a"
    unfolding v_def using lt by (rule bytes_of_val(1))
  then show "char_of (w div 65536) = a"
    unfolding w by (rule char_of_byte')
  have "v div 256 mod 256 = of_char b"
    unfolding v_def using lt by (rule bytes_of_val(2))
  then show "char_of (w div 256) = b"
    unfolding w by (rule char_of_byte')
  have "v mod 256 = of_char c"
    unfolding v_def using lt by (rule bytes_of_val(3))
  then show "char_of w = c"
    unfolding w by (rule char_of_byte')
qed

lemma quantum_bytes_4:
  "quantum_bytes [s0, s1, s2, s3] =
     (let val = push_bit 18 s0 OR push_bit 12 s1 OR push_bit 6 s2 OR s3
      in [char_of (val div 65536), char_of (val div 256), char_of val])"
  by (simp add: quantum_bytes_def dbuf_at_def Let_def drop_bit_eq_div)

lemma quantum_bytes_3:
  "quantum_bytes [s0, s1, s2] =
     (let val = push_bit 18 s0 OR push_bit 12 s1 OR push_bit 6 s2 OR 0
      in [char_of (val div 65536), char_of (val div 256)])"
  by (simp add: quantum_bytes_def dbuf_at_def Let_def drop_bit_eq_div)

lemma quantum_bytes_2:
  "quantum_bytes [s0, s1] =
     (let val = push_bit 18 s0 OR push_bit 12 s1 OR push_bit 6 0 OR 0
      in [char_of (val div 65536)])"
  by (simp add: quantum_bytes_def dbuf_at_def Let_def drop_bit_eq_div)

lemma not_newline_padChar: "\<not> is_newline padChar"
  by (simp add: is_newline_def padChar_def)

lemma decodeQuantum_4:
  assumes "s0 < 64" "s1 < 64" "s2 < 64" "s3 < 64"
  shows "decodeQuantum [] (encode s0 # encode s1 # encode s2 # encode s3 # X)
         = Inr (quantum_bytes [s0, s1, s2, s3], X)"
  using assms by (simp add: decodeMap_encode)

lemma decodeQuantum_3:
  assumes "s0 < 64" "s1 < 64" "s2 < 64"
  shows "decodeQuantum [] [encode s0, encode s1, encode s2, padChar]
         = Inr (quantum_bytes [s0, s1, s2], [])"
  using assms by (simp add: decodeMap_encode decodeMap_padChar not_newline_padChar)

lemma decodeQuantum_2:
  assumes "s0 < 64" "s1 < 64"
  shows "decodeQuantum [] [encode s0, encode s1, padChar, padChar]
         = Inr (quantum_bytes [s0, s1], [])"
  using assms by (simp add: decodeMap_encode decodeMap_padChar not_newline_padChar)


lemma pack2:
  fixes a b :: nat
  assumes "b < 256"
  shows "push_bit 16 a OR push_bit 8 b = a * 65536 + b * 256"
proof -
  have "b * 256 < 2 ^ 16" using assms by simp
  then have "push_bit 16 a OR b * 256 = a * 2 ^ 16 + b * 256" by (rule or_plus)
  then show ?thesis by (simp add: push_bit_eq_mult)
qed

lemma sextet_lt: "(n::nat) mod 64 < 64"
  by simp

lemma quantum3:
  fixes a b c :: char
  defines "v \<equiv> of_char a * 65536 + of_char b * 256 + of_char c :: nat"
  shows "EncodeToString (a # b # c # rest) =
           encode (v div 262144 mod 64) # encode (v div 4096 mod 64) #
           encode (v div 64 mod 64) # encode (v mod 64) # EncodeToString rest"
    and "quantum_bytes [v div 262144 mod 64, v div 4096 mod 64, v div 64 mod 64, v mod 64]
           = [a, b, c]"
proof -
  have "push_bit 16 (of_char a) OR push_bit 8 (of_char b) OR of_char c = v"
    unfolding v_def by (rule pack3) simp_all
  then show "EncodeToString (a # b # c # rest) =
           encode (v div 262144 mod 64) # encode (v div 4096 mod 64) #
           encode (v div 64 mod 64) # encode (v mod 64) # EncodeToString rest"
    by (simp add: Let_def and_0x3F drop_bit_eq_div)
  show "quantum_bytes [v div 262144 mod 64, v div 4096 mod 64, v div 64 mod 64, v mod 64]
           = [a, b, c]"
    unfolding quantum_bytes_4 Let_def v_def
    by (simp only: decode_bytes)
qed

lemma quantum2:
  fixes a b :: char
  defines "v \<equiv> of_char a * 65536 + of_char b * 256 :: nat"
  shows "EncodeToString [a, b] =
           [encode (v div 262144 mod 64), encode (v div 4096 mod 64),
            encode (v div 64 mod 64), padChar]"
    and "quantum_bytes [v div 262144 mod 64, v div 4096 mod 64, v div 64 mod 64] = [a, b]"
proof -
  have "push_bit 16 (of_char a) OR push_bit 8 (of_char b) = v"
    unfolding v_def by (rule pack2) simp
  then show "EncodeToString [a, b] =
           [encode (v div 262144 mod 64), encode (v div 4096 mod 64),
            encode (v div 64 mod 64), padChar]"
    by (simp add: Let_def and_0x3F drop_bit_eq_div)
  have v': "v = of_char a * 65536 + of_char b * 256 + of_char (CHR 0x00)"
    by (simp add: v_def)
  have "v = (of_char a * 1024 + of_char b * 4) * 64"
    by (simp add: v_def)
  then have z: "v mod 64 = 0"
    by (simp only: mod_mult_self2_is_0)
  have "quantum_bytes [v div 262144 mod 64, v div 4096 mod 64, v div 64 mod 64]
        = (let val = push_bit 18 (v div 262144 mod 64) OR push_bit 12 (v div 4096 mod 64)
                     OR push_bit 6 (v div 64 mod 64) OR v mod 64
           in [char_of (val div 65536), char_of (val div 256)])"
    unfolding quantum_bytes_3 z ..
  also have "\<dots> = [a, b]"
    unfolding Let_def v' by (simp only: decode_bytes)
  finally show "quantum_bytes [v div 262144 mod 64, v div 4096 mod 64, v div 64 mod 64] = [a, b]" .
qed

lemma quantum1:
  fixes a :: char
  defines "v \<equiv> of_char a * 65536 :: nat"
  shows "EncodeToString [a] =
           [encode (v div 262144 mod 64), encode (v div 4096 mod 64), padChar, padChar]"
    and "quantum_bytes [v div 262144 mod 64, v div 4096 mod 64] = [a]"
proof -
  have "push_bit 16 (of_char a) = v"
    unfolding v_def by (simp add: push_bit_eq_mult)
  then show "EncodeToString [a] =
           [encode (v div 262144 mod 64), encode (v div 4096 mod 64), padChar, padChar]"
    by (simp add: Let_def and_0x3F drop_bit_eq_div)
  have v': "v = of_char a * 65536 + of_char (CHR 0x00) * 256 + of_char (CHR 0x00)"
    by (simp add: v_def)
  have "v = (of_char a * 1024) * 64"
    by (simp add: v_def)
  then have z: "v mod 64 = 0"
    by (simp only: mod_mult_self2_is_0)
  have "v div 64 = (of_char a * 16) * 64"
    by (simp add: v_def)
  then have z2: "v div 64 mod 64 = 0"
    by (simp only: mod_mult_self2_is_0)
  have "quantum_bytes [v div 262144 mod 64, v div 4096 mod 64]
        = (let val = push_bit 18 (v div 262144 mod 64) OR push_bit 12 (v div 4096 mod 64)
                     OR push_bit 6 (v div 64 mod 64) OR v mod 64
           in [char_of (val div 65536)])"
    unfolding quantum_bytes_2 z z2 ..
  also have "\<dots> = [a]"
    unfolding Let_def v' by (simp only: decode_bytes)
  finally show "quantum_bytes [v div 262144 mod 64, v div 4096 mod 64] = [a]" .
qed

lemma EncodeToString_nonempty: "p \<noteq> [] \<Longrightarrow> EncodeToString p \<noteq> []"
  by (induction p rule: EncodeToString.induct) (simp_all add: Let_def)

lemma DecodeString_EncodeToString: "DecodeString (EncodeToString p) = Inr p"
proof (induction p rule: EncodeToString.induct)
  case (1 a b c rest)
  define v :: nat where "v = of_char a * 65536 + of_char b * 256 + of_char c"
  have "decodeQuantum []
          (encode (v div 262144 mod 64) # encode (v div 4096 mod 64) #
           encode (v div 64 mod 64) # encode (v mod 64) # EncodeToString rest)
        = Inr (quantum_bytes [v div 262144 mod 64, v div 4096 mod 64, v div 64 mod 64, v mod 64],
               EncodeToString rest)"
    by (rule decodeQuantum_4) (rule sextet_lt)+
  then have "decodeQuantum [] (EncodeToString (a # b # c # rest))
             = Inr ([a, b, c], EncodeToString rest)"
    unfolding v_def by (simp only: quantum3)
  moreover have "EncodeToString (a # b # c # rest) \<noteq> []"
    by (rule EncodeToString_nonempty) simp
  ultimately show ?case
    using 1 by (subst DecodeString.simps) simp
next
  case (2 a b)
  define v :: nat where "v = of_char a * 65536 + of_char b * 256"
  have "decodeQuantum []
          [encode (v div 262144 mod 64), encode (v div 4096 mod 64),
           encode (v div 64 mod 64), padChar]
        = Inr (quantum_bytes [v div 262144 mod 64, v div 4096 mod 64, v div 64 mod 64], [])"
    by (rule decodeQuantum_3) (rule sextet_lt)+
  then have "decodeQuantum [] (EncodeToString [a, b]) = Inr ([a, b], [])"
    unfolding v_def by (simp only: quantum2)
  moreover have "EncodeToString [a, b] \<noteq> []"
    by (rule EncodeToString_nonempty) simp
  ultimately show ?case
    by (subst DecodeString.simps) (simp add: DecodeString.simps [of "[]"])
next
  case (3 a)
  define v :: nat where "v = of_char a * 65536"
  have "decodeQuantum []
          [encode (v div 262144 mod 64), encode (v div 4096 mod 64), padChar, padChar]
        = Inr (quantum_bytes [v div 262144 mod 64, v div 4096 mod 64], [])"
    by (rule decodeQuantum_2) (rule sextet_lt)+
  then have "decodeQuantum [] (EncodeToString [a]) = Inr ([a], [])"
    unfolding v_def by (simp only: quantum1)
  moreover have "EncodeToString [a] \<noteq> []"
    by (rule EncodeToString_nonempty) simp
  ultimately show ?case
    by (subst DecodeString.simps) (simp add: DecodeString.simps [of "[]"])
next
  case 4
  show ?case by (simp add: DecodeString.simps)
qed

subsection \<open>The codec\<close>

lemma Split_no_sep: "sep \<notin> set s \<Longrightarrow> Split s sep = [s]"
  by (induction s) auto

lemma Split_append_sep: "sep \<notin> set k \<Longrightarrow> Split (k @ sep # r) sep = k # Split r sep"
  by (induction k) auto

text \<open>
  Claim C1 says that parsing the line created from a key \<open>k\<close> and a path \<open>p\<close> gives back
  \<open>(k, p)\<close>, for every path. The code encodes the path to keep it apart from the
  separator, but \<open>base64.StdEncoding\<close> has the separator as the last character of its
  alphabet. At the key \<open>a\<close> and the path \<open>/a?\<close>: the path is encoded as \<open>L2E/\<close>, the line
  is \<open>a/L2E/\<close>, \<open>strings.Split\<close> cuts it into three parts, and \<open>parse_hpoon_line\<close>
  returns the error of a malformed line.
\<close>

theorem codec_round_trip_fails:
  "''a'' \<noteq> LAST_MARKED_KEY
   \<and> EncodeToString ''/a?'' = ''L2E/''
   \<and> create_hpoon_line ''a'' ''/a?'' = ''a/L2E/''
   \<and> Split ''a/L2E/'' KV_SEPERATOR = [''a'', ''L2E'', []]
   \<and> parse_hpoon_line (create_hpoon_line ''a'' ''/a?'') = Inl (InvalidFormat ''a/L2E/'')"
proof -
  have "EncodeToString ''/a?'' = ''L2E/''"
    by (simp add: Let_def encode_def encodeStd_def)
  then show ?thesis
    by (simp add: LAST_MARKED_KEY_def KV_SEPERATOR_def parse_hpoon_line_def create_hpoon_line_def)
qed

subsection \<open>Loading an empty store\<close>

lemma Scan_empty: "Scan [] = ([], False)"
  by (simp add: Scan_def raw_lines_def)

lemma store_exists: "check_path_exists w (get_hpoon_file w) \<longleftrightarrow> store_file w \<noteq> None"
  by (simp add: check_path_exists_def)

lemma load_hpoon_empty:
  assumes "store_file w = None \<or> store_file w = Some []"
  shows "load_hpoon w
         = (Inr \<lparr>last_marked = [], marks = Map.empty\<rparr>, w\<lparr>store_file := Some []\<rparr>)"
  using assms
  by (auto simp: load_hpoon_def store_exists read_hpoon_file_def Scan_empty Let_def)

text \<open>
  Claim C3: for every record whose \<open>last_marked\<close> is the empty string, whatever its named
  marks and whatever the file held before, saving leaves the store file empty, and the load
  that follows returns the empty record.
\<close>

theorem empty_save_erases:
  assumes "last_marked data = []"
  shows "store_file (save_hpoon ks data w) = Some []
         \<and> fst (load_hpoon (save_hpoon ks data w)) = Inr \<lparr>last_marked = [], marks = Map.empty\<rparr>"
  using assms
  by (simp add: save_hpoon_def write_hpoon_file_def non_value_def load_hpoon_empty)

theorem empty_save_erases_witness:
  "last_marked \<lparr>last_marked = [], marks = [''x'' \<mapsto> ''/tmp/foo'', ''y'' \<mapsto> ''/etc'']\<rparr> = []
   \<and> store_file (save_hpoon [''x'', ''y'']
         \<lparr>last_marked = [], marks = [''x'' \<mapsto> ''/tmp/foo'', ''y'' \<mapsto> ''/etc'']\<rparr>
         \<lparr>GOOS = ''linux'', store_file = Some ''x/L3RtcC9mb28='', stderr = [],
          path_exists = (\<lambda>p. True), Getwd = ''/home'', Abs = Some\<rparr>) = Some []
   \<and> fst (load_hpoon (save_hpoon [''x'', ''y'']
         \<lparr>last_marked = [], marks = [''x'' \<mapsto> ''/tmp/foo'', ''y'' \<mapsto> ''/etc'']\<rparr>
         \<lparr>GOOS = ''linux'', store_file = Some ''x/L3RtcC9mb28='', stderr = [],
          path_exists = (\<lambda>p. True), Getwd = ''/home'', Abs = Some\<rparr>))
       = Inr \<lparr>last_marked = [], marks = Map.empty\<rparr>"
proof -
  have h: "last_marked \<lparr>last_marked = [], marks = [''x'' \<mapsto> ''/tmp/foo'', ''y'' \<mapsto> ''/etc'']\<rparr> = []"
    by simp
  show ?thesis
    using h empty_save_erases [OF h] by simp
qed

subsection \<open>What a save writes\<close>

lemma write_marks_filter:
  "write_marks ks m =
     concat (map (\<lambda>k. create_hpoon_line k (the (m k)) @ [CHR 0x0A])
                 (filter (\<lambda>k. \<exists>v. m k = Some v \<and> v \<noteq> []) ks))"
  by (induction ks) (auto simp: non_value_def split: option.splits)

subsection \<open>Clean\<close>

text \<open>
  Claim C8: \<open>hpoon_clean\<close> removes the store file, whether it was there or not, and the
  command \<open>clean\<close> ends without error; after it the next load returns the empty record,
  \<open>hpoon_get_mark\<close> without a name returns the empty string, and \<open>hpoon_list\<close> prints
  nothing.
\<close>

theorem clean_resets:
  "store_file (hpoon_clean w) = None
   \<and> run_single_arg ks ''clean'' w = (Inr NoOutput, hpoon_clean w)
   \<and> hpoon_clean (hpoon_clean w) = hpoon_clean w
   \<and> fst (load_hpoon (hpoon_clean w)) = Inr \<lparr>last_marked = [], marks = Map.empty\<rparr>
   \<and> fst (hpoon_get_mark None (hpoon_clean w)) = Inr []
   \<and> fst (hpoon_list ks' (hpoon_clean w)) = Inr (Print [])"
proof -
  have l: "list_output ks' Map.empty = []"
    by (induction ks') simp_all
  have "store_file (hpoon_clean w) = None"
    by (simp add: hpoon_clean_def)
  then have "load_hpoon (hpoon_clean w)
             = (Inr \<lparr>last_marked = [], marks = Map.empty\<rparr>, (hpoon_clean w)\<lparr>store_file := Some []\<rparr>)"
    by (simp add: load_hpoon_empty)
  then show ?thesis
    by (simp add: hpoon_get_mark_def hpoon_list_def l run_single_arg_def hpoon_clean_def)
qed

subsection \<open>The path that a command stores\<close>

text \<open>
  Claim C9: with two arguments, of which the first exists, the command is
  \<open>hpoon_set_mark\<close> on the argument as it was given when it is not \<open>.\<close>, whatever
  \<open>filepath.Abs\<close> would make of it, and on the working directory when it is \<open>.\<close>; with one
  argument that is a path, it is \<open>hpoon_set_mark\<close> on what \<open>filepath.Abs\<close> returns.
\<close>

theorem double_arg_verbatim:
  "(check_path_exists w arg \<and> arg \<noteq> ''.'' \<longrightarrow>
      run_double_arg ks arg name w = quiet (hpoon_set_mark ks arg (Some name) w))
   \<and> (check_path_exists w ''.'' \<longrightarrow>
      run_double_arg ks ''.'' name w = quiet (hpoon_set_mark ks (Getwd w) (Some name) w))
   \<and> (arg \<notin> {''-h'', ''--help'', ''clean'', ''list''} \<and> \<not> check_name_ref arg
        \<and> Abs w arg = Some path \<and> check_path_exists w path \<longrightarrow>
      run_single_arg ks arg w = quiet (hpoon_set_mark ks path None w))"
  by (simp add: run_double_arg_def run_single_arg_def)

theorem double_arg_verbatim_witness:
  "(check_path_exists
      \<lparr>GOOS = ''linux'', store_file = None, stderr = [], path_exists = (\<lambda>p. True),
       Getwd = ''/home/u'', Abs = (\<lambda>p. Some (''/home/u/'' @ p))\<rparr> ''foo''
    \<and> ''foo'' \<noteq> ''.''
    \<and> check_path_exists
      \<lparr>GOOS = ''linux'', store_file = None, stderr = [], path_exists = (\<lambda>p. True),
       Getwd = ''/home/u'', Abs = (\<lambda>p. Some (''/home/u/'' @ p))\<rparr> ''.''
    \<and> ''foo'' \<notin> {''-h'', ''--help'', ''clean'', ''list''} \<and> \<not> check_name_ref ''foo''
    \<and> Abs \<lparr>GOOS = ''linux'', store_file = None, stderr = [], path_exists = (\<lambda>p. True),
       Getwd = ''/home/u'', Abs = (\<lambda>p. Some (''/home/u/'' @ p))\<rparr> ''foo'' = Some ''/home/u/foo''
    \<and> check_path_exists
      \<lparr>GOOS = ''linux'', store_file = None, stderr = [], path_exists = (\<lambda>p. True),
       Getwd = ''/home/u'', Abs = (\<lambda>p. Some (''/home/u/'' @ p))\<rparr> ''/home/u/foo'')
   \<and> run_double_arg [''x''] ''foo'' ''x''
        \<lparr>GOOS = ''linux'', store_file = None, stderr = [], path_exists = (\<lambda>p. True),
         Getwd = ''/home/u'', Abs = (\<lambda>p. Some (''/home/u/'' @ p))\<rparr>
      = quiet (hpoon_set_mark [''x''] ''foo'' (Some ''x'')
        \<lparr>GOOS = ''linux'', store_file = None, stderr = [], path_exists = (\<lambda>p. True),
         Getwd = ''/home/u'', Abs = (\<lambda>p. Some (''/home/u/'' @ p))\<rparr>)
   \<and> run_double_arg [''x''] ''.'' ''x''
        \<lparr>GOOS = ''linux'', store_file = None, stderr = [], path_exists = (\<lambda>p. True),
         Getwd = ''/home/u'', Abs = (\<lambda>p. Some (''/home/u/'' @ p))\<rparr>
      = quiet (hpoon_set_mark [''x''] ''/home/u'' (Some ''x'')
        \<lparr>GOOS = ''linux'', store_file = None, stderr = [], path_exists = (\<lambda>p. True),
         Getwd = ''/home/u'', Abs = (\<lambda>p. Some (''/home/u/'' @ p))\<rparr>)
   \<and> run_single_arg [''x''] ''foo''
        \<lparr>GOOS = ''linux'', store_file = None, stderr = [], path_exists = (\<lambda>p. True),
         Getwd = ''/home/u'', Abs = (\<lambda>p. Some (''/home/u/'' @ p))\<rparr>
      = quiet (hpoon_set_mark [''x''] ''/home/u/foo'' None
        \<lparr>GOOS = ''linux'', store_file = None, stderr = [], path_exists = (\<lambda>p. True),
         Getwd = ''/home/u'', Abs = (\<lambda>p. Some (''/home/u/'' @ p))\<rparr>)"
proof -
  let ?w = "\<lparr>GOOS = ''linux'', store_file = None, stderr = [], path_exists = (\<lambda>p. True),
       Getwd = ''/home/u'', Abs = (\<lambda>p. Some (''/home/u/'' @ p))\<rparr>"
  have h: "check_path_exists ?w ''foo'' \<and> ''foo'' \<noteq> ''.'' \<and> check_path_exists ?w ''.''
    \<and> ''foo'' \<notin> {''-h'', ''--help'', ''clean'', ''list''} \<and> \<not> check_name_ref ''foo''
    \<and> Abs ?w ''foo'' = Some ''/home/u/foo'' \<and> check_path_exists ?w ''/home/u/foo''"
    by (simp add: check_path_exists_def get_hpoon_file_def check_name_ref_def NAME_REF_def)
  show ?thesis
    using h double_arg_verbatim [of ?w "''foo''" "[''x'']" "''x''" "''/home/u/foo''"]
    by simp
qed

subsection \<open>What a load returns\<close>

lemma line_errors_simps:
  "line_errors [] = []"
  "line_errors (l # ls) =
     (case parse_hpoon_line l of Inl e \<Rightarrow> e # line_errors ls | Inr kv \<Rightarrow> line_errors ls)"
  by (simp_all add: line_errors_def map_filter_simps split: sum.splits)

lemma well_formed_values_simps:
  "well_formed_values key [] = []"
  "well_formed_values key (l # ls) =
     (case parse_hpoon_line l of
        Inl e \<Rightarrow> well_formed_values key ls
      | Inr (k, v) \<Rightarrow> if k = key then v # well_formed_values key ls
                      else well_formed_values key ls)"
  by (simp_all add: well_formed_values_def map_filter_simps split: sum.splits prod.splits)

text \<open>The record that the loop builds, in closed form.\<close>

lemma scan_loop_eq:
  "scan_loop ls reports lm data =
     (reports @ line_errors ls,
      (if well_formed_values LAST_MARKED_KEY ls = [] then lm
       else last (well_formed_values LAST_MARKED_KEY ls)),
      (\<lambda>k. if k \<noteq> LAST_MARKED_KEY \<and> well_formed_values k ls \<noteq> []
           then Some (last (well_formed_values k ls)) else data k))"
proof (induction ls arbitrary: reports lm data)
  case Nil
  show ?case by (simp add: line_errors_simps well_formed_values_simps)
next
  case (Cons l ls)
  show ?case
  proof (cases "parse_hpoon_line l")
    case (Inl e)
    then show ?thesis
      by (simp add: Cons line_errors_simps well_formed_values_simps cong: if_cong)
  next
    case (Inr kv)
    obtain k v where kv: "kv = (k, v)" by (cases kv)
    show ?thesis
    proof (cases "k = LAST_MARKED_KEY")
      case True
      with Inr kv show ?thesis
        by (auto simp: Cons line_errors_simps well_formed_values_simps fun_eq_iff)
    next
      case False
      with Inr kv show ?thesis
        by (auto simp: Cons line_errors_simps well_formed_values_simps fun_eq_iff)
    qed
  qed
qed

lemma load_hpoon_eq:
  "load_hpoon w =
     (if scannable w then Inr (loaded w) else Inl ParseError,
      w\<lparr>store_file := Some (store_content w),
        stderr := stderr w @ line_errors (stored_lines w)\<rparr>)"
proof -
  obtain ls err where sc: "Scan (store_content w) = (ls, err)"
    by (cases "Scan (store_content w)")
  show ?thesis
  proof (cases "store_file w")
    case None
    with sc show ?thesis
      by (simp add: load_hpoon_def store_exists read_hpoon_file_def scan_loop_eq loaded_def
          scannable_def stored_lines_def store_content_def Let_def cong: if_cong)
  next
    case (Some content)
    with sc show ?thesis
      by (simp add: load_hpoon_def store_exists read_hpoon_file_def scan_loop_eq loaded_def
          scannable_def stored_lines_def store_content_def Let_def cong: if_cong)
  qed
qed


lemma scannable_iff:
  "scannable w \<longleftrightarrow> (\<forall>l \<in> set (raw_lines (store_content w)). length l < MaxScanTokenSize)"
  by (auto simp: scannable_def Scan_def Let_def too_long_def not_le)

lemma stored_lines_scannable:
  "scannable w \<Longrightarrow> stored_lines w = map dropCR (raw_lines (store_content w))"
proof -
  assume "scannable w"
  then have "\<forall>l \<in> set (raw_lines (store_content w)). \<not> too_long l"
    by (simp add: scannable_def Scan_def Let_def)
  then have tw: "takeWhile (\<lambda>l. \<not> too_long l) (raw_lines (store_content w))
                 = raw_lines (store_content w)"
    by (simp only: takeWhile_eq_all_conv)
  show ?thesis
    unfolding stored_lines_def Scan_def Let_def fst_conv tw ..
qed

lemma hpoon_get_mark_eq:
  "hpoon_get_mark name w =
     (if scannable w
      then (case name of
              None \<Rightarrow> Inr (last_marked (loaded w))
            | Some n \<Rightarrow> (case marks (loaded w) n of
                          None \<Rightarrow> Inl (MarkDoesNotExist n)
                        | Some v \<Rightarrow> Inr v))
      else Inl ParseError,
      w\<lparr>store_file := Some (store_content w),
        stderr := stderr w @ line_errors (stored_lines w)\<rparr>)"
  by (simp add: hpoon_get_mark_def load_hpoon_eq split: option.splits)

lemma Split_length_sep: "length (Split s sep) = Suc (length (filter (\<lambda>c. c = sep) s))"
  by (induction s) (auto split: list.splits)

lemma Split_single: "length (Split s sep) = Suc 0 \<longleftrightarrow> sep \<notin> set s"
  by (auto simp: Split_length_sep filter_empty_conv)

lemma parse_create_eq:
  assumes "KV_SEPERATOR \<notin> set k"
  shows "parse_hpoon_line (create_hpoon_line k p) =
           (if KV_SEPERATOR \<in> set (EncodeToString p)
            then Inl (InvalidFormat (create_hpoon_line k p)) else Inr (k, p))"
proof -
  have sp: "Split (create_hpoon_line k p) KV_SEPERATOR = k # Split (EncodeToString p) KV_SEPERATOR"
    using assms by (simp add: create_hpoon_line_def Split_append_sep)
  show ?thesis
  proof (cases "KV_SEPERATOR \<in> set (EncodeToString p)")
    case True
    then have "length (Split (EncodeToString p) KV_SEPERATOR) \<noteq> Suc 0"
      by (simp add: Split_single)
    with True show ?thesis
      by (simp add: parse_hpoon_line_def sp)
  next
    case False
    then show ?thesis
      by (simp add: parse_hpoon_line_def sp Split_no_sep DecodeString_EncodeToString)
  qed
qed

lemma too_long_replicate: "too_long (replicate 65536 c)"
  by (simp add: too_long_def MaxScanTokenSize_def)


lemma raw_lines_one:
  assumes "CHR 0x0A \<notin> set b" and "b \<noteq> []"
  shows "raw_lines b = [b]"
  using assms by (simp add: raw_lines_def Split_no_sep)

lemma example_lines:
  "Scan example_content = ([''junk'', ''x/YQ=='', ''_/Yg=='', ''x/Yw==''], False)"
  by (simp add: example_content_def Scan_def raw_lines_def too_long_def MaxScanTokenSize_def
      dropCR_def)


lemma example_parse:
  "parse_hpoon_line ''junk'' = Inl (InvalidFormat ''junk'')"
  "parse_hpoon_line ''x/YQ=='' = Inr (''x'', ''a'')"
  "parse_hpoon_line ''_/Yg=='' = Inr (''_'', ''b'')"
  "parse_hpoon_line ''x/Yw=='' = Inr (''x'', ''c'')"
proof -
  show "parse_hpoon_line ''junk'' = Inl (InvalidFormat ''junk'')"
    by (simp add: parse_hpoon_line_def KV_SEPERATOR_def)
  have a: "''x/YQ=='' = create_hpoon_line ''x'' ''a''"
    by (simp add: create_hpoon_line_def KV_SEPERATOR_def Let_def encode_def encodeStd_def padChar_def)
  show "parse_hpoon_line ''x/YQ=='' = Inr (''x'', ''a'')"
    unfolding a
    by (subst parse_create_eq) (simp_all add: KV_SEPERATOR_def Let_def encode_def encodeStd_def padChar_def)
  have b: "''_/Yg=='' = create_hpoon_line ''_'' ''b''"
    by (simp add: create_hpoon_line_def KV_SEPERATOR_def Let_def encode_def encodeStd_def padChar_def)
  show "parse_hpoon_line ''_/Yg=='' = Inr (''_'', ''b'')"
    unfolding b
    by (subst parse_create_eq) (simp_all add: KV_SEPERATOR_def Let_def encode_def encodeStd_def padChar_def)
  have c: "''x/Yw=='' = create_hpoon_line ''x'' ''c''"
    by (simp add: create_hpoon_line_def KV_SEPERATOR_def Let_def encode_def encodeStd_def padChar_def)
  show "parse_hpoon_line ''x/Yw=='' = Inr (''x'', ''c'')"
    unfolding c
    by (subst parse_create_eq) (simp_all add: KV_SEPERATOR_def Let_def encode_def encodeStd_def padChar_def)
qed

lemma example_scannable: "scannable (example_world (Some example_content))"
  by (simp add: scannable_def store_content_def example_world_def example_lines)

lemma example_values:
  "well_formed_values ''x'' (fst (Scan example_content)) = [''a'', ''c'']"
  "well_formed_values LAST_MARKED_KEY (fst (Scan example_content)) = [''b'']"
  "line_errors (fst (Scan example_content)) = [InvalidFormat ''junk'']"
  by (simp_all add: example_lines well_formed_values_simps line_errors_simps example_parse
      LAST_MARKED_KEY_def)

text \<open>
  Claim C5: for every content of the store file, every record that the load returns and
  every key that has a well-formed line: the record binds the key to the value of the last
  well-formed line of that key, in \<open>last_marked\<close> for the reserved key and in the map for
  any other key.
\<close>

theorem last_occurrence_wins:
  assumes "fst (load_hpoon w) = Inr r"
    and "store_file w = Some content"
    and "well_formed_values key (fst (Scan content)) \<noteq> []"
  shows "if key = LAST_MARKED_KEY
         then last_marked r = last (well_formed_values key (fst (Scan content)))
         else marks r key = Some (last (well_formed_values key (fst (Scan content))))"
proof -
  have sl: "stored_lines w = fst (Scan content)"
    using assms(2) by (simp add: stored_lines_def store_content_def)
  from assms(1) have "scannable w" and "r = loaded w"
    by (auto simp: load_hpoon_eq split: if_splits)
  with assms(3) show ?thesis
    by (auto simp: loaded_def sl)
qed

theorem last_occurrence_wins_witness:
  "fst (load_hpoon (example_world (Some example_content)))
     = Inr (loaded (example_world (Some example_content)))
   \<and> store_file (example_world (Some example_content)) = Some example_content
   \<and> well_formed_values ''x'' (fst (Scan example_content)) \<noteq> []
   \<and> well_formed_values ''x'' (fst (Scan example_content)) = [''a'', ''c'']
   \<and> marks (loaded (example_world (Some example_content))) ''x'' = Some ''c''"
proof -
  let ?w = "example_world (Some example_content)"
  have h1: "fst (load_hpoon ?w) = Inr (loaded ?w)"
    by (simp add: load_hpoon_eq example_scannable)
  have h2: "store_file ?w = Some example_content"
    by (simp add: example_world_def)
  have h3: "well_formed_values ''x'' (fst (Scan example_content)) \<noteq> []"
    by (simp add: example_values)
  show ?thesis
    using h1 h2 h3 last_occurrence_wins [OF h1 h2 h3]
    by (simp add: example_values LAST_MARKED_KEY_def)
qed




text \<open>
  Claim C6, as the code has it: for every state in which the store file is absent or has
  only lines of fewer than \<open>MaxScanTokenSize\<close> bytes, the load returns a record \<open>r\<close>;
  \<open>hpoon_get_mark\<close> without a name returns \<open>last_marked r\<close>, which is the empty string when
  no well-formed line has the reserved key; with a name it returns the path of the name in
  \<open>marks r\<close> when there is one, and the error "does not exist" exactly when there is none.
\<close>

theorem get_mark_contract:
  assumes "scannable w"
  shows "\<exists>r w'. load_hpoon w = (Inr r, w')
           \<and> hpoon_get_mark None w = (Inr (last_marked r), w')
           \<and> last_marked r =
                 (if well_formed_values LAST_MARKED_KEY (stored_lines w) = [] then []
                  else last (well_formed_values LAST_MARKED_KEY (stored_lines w)))
           \<and> (\<forall>name. hpoon_get_mark (Some name) w =
                  (case marks r name of
                     None \<Rightarrow> (Inl (MarkDoesNotExist name), w')
                   | Some v \<Rightarrow> (Inr v, w')))"
proof -
  define w' where "w' = w\<lparr>store_file := Some (store_content w),
        stderr := stderr w @ line_errors (stored_lines w)\<rparr>"
  have "load_hpoon w = (Inr (loaded w), w')"
    using assms by (simp add: load_hpoon_eq w'_def)
  moreover have "hpoon_get_mark None w = (Inr (last_marked (loaded w)), w')"
    using assms by (simp add: hpoon_get_mark_eq w'_def)
  moreover have "last_marked (loaded w) =
                 (if well_formed_values LAST_MARKED_KEY (stored_lines w) = [] then []
                  else last (well_formed_values LAST_MARKED_KEY (stored_lines w)))"
    by (simp add: loaded_def)
  moreover have "\<forall>name. hpoon_get_mark (Some name) w =
                  (case marks (loaded w) name of
                     None \<Rightarrow> (Inl (MarkDoesNotExist name), w')
                   | Some v \<Rightarrow> (Inr v, w'))"
    using assms by (simp add: hpoon_get_mark_eq w'_def split: option.splits)
  ultimately show ?thesis by blast
qed

theorem get_mark_contract_witness:
  "scannable (example_world (Some example_content))
   \<and> (\<exists>r w'. load_hpoon (example_world (Some example_content)) = (Inr r, w')
         \<and> hpoon_get_mark None (example_world (Some example_content)) = (Inr ''b'', w')
         \<and> hpoon_get_mark (Some ''x'') (example_world (Some example_content)) = (Inr ''c'', w')
         \<and> hpoon_get_mark (Some ''nope'') (example_world (Some example_content))
             = (Inl (MarkDoesNotExist ''nope''), w'))"
proof -
  let ?w = "example_world (Some example_content)"
  have sl: "stored_lines ?w = fst (Scan example_content)"
    by (simp add: stored_lines_def store_content_def example_world_def)
  from get_mark_contract [OF example_scannable] obtain r w'
    where l: "load_hpoon ?w = (Inr r, w')"
      and g: "hpoon_get_mark None ?w = (Inr (last_marked r), w')"
      and u: "last_marked r =
                 (if well_formed_values LAST_MARKED_KEY (stored_lines ?w) = [] then []
                  else last (well_formed_values LAST_MARKED_KEY (stored_lines ?w)))"
      and n: "\<forall>name. hpoon_get_mark (Some name) ?w =
                (case marks r name of
                   None \<Rightarrow> (Inl (MarkDoesNotExist name), w')
                 | Some v \<Rightarrow> (Inr v, w'))"
    by blast
  from l have r: "r = loaded ?w"
    by (simp add: load_hpoon_eq example_scannable)
  have v: "well_formed_values ''nope'' (fst (Scan example_content)) = []"
    by (simp add: example_lines well_formed_values_simps example_parse)
  have "marks r ''x'' = Some ''c''" and "marks r ''nope'' = None"
    by (simp_all add: r loaded_def sl example_values v LAST_MARKED_KEY_def)
  with n have "hpoon_get_mark (Some ''x'') ?w = (Inr ''c'', w')"
    and "hpoon_get_mark (Some ''nope'') ?w = (Inl (MarkDoesNotExist ''nope''), w')"
    by simp_all
  moreover from g u have "hpoon_get_mark None ?w = (Inr ''b'', w')"
    by (simp add: sl example_values)
  ultimately show ?thesis
    using l example_scannable by blast
qed

text \<open>On a store file that is one line of 65536 bytes the load, and with it the command, quits.\<close>

theorem get_mark_contract_counterexample:
  "fst (hpoon_get_mark None
        \<lparr>GOOS = ''linux'', store_file = Some (replicate 65536 (CHR ''z'')),
         stderr = [], path_exists = (\<lambda>p. True), Getwd = ''/home'', Abs = Some\<rparr>)
   = Inl ParseError"
proof -
  have "raw_lines (replicate 65536 (CHR ''z'')) = [replicate 65536 (CHR ''z'')]"
    by (rule raw_lines_one) simp_all
  then have "snd (Scan (replicate 65536 (CHR ''z'')))"
    by (simp add: Scan_def too_long_replicate)
  then show ?thesis
    by (simp add: hpoon_get_mark_eq scannable_def store_content_def)
qed

subsection \<open>The length of what decodes\<close>

lemma div3_step: "(5 + n) div 3 = Suc (Suc (Suc n) div 3)" for n :: nat
  by presburger

lemma length_EncodeToString: "length (EncodeToString v) = 4 * ((length v + 2) div 3)"
  by (induction v rule: EncodeToString.induct) (simp_all add: Let_def div3_step)

lemma length_skip_newlines: "length (skip_newlines cs) \<le> length cs"
  by (induction cs) auto

lemma length_quantum_bytes: "length dbuf \<le> 4 \<Longrightarrow> length (quantum_bytes dbuf) = length dbuf - 1"
  by (simp add: quantum_bytes_def Let_def)

lemma decodeQuantum_lengths:
  assumes "decodeQuantum dbuf src = Inr (bs, rest)" and "length dbuf \<le> 3"
  shows "length bs \<le> 3 \<and> (length bs = 3 \<or> rest = [])
         \<and> (bs \<noteq> [] \<longrightarrow> length rest + 4 \<le> length src + length dbuf)"
  using assms
proof (induction dbuf src rule: decodeQuantum.induct)
  case (1 dbuf)
  then show ?case by (simp split: if_splits)
next
  case (2 dbuf c cs)
  show ?case
  proof (cases "decodeMap c")
    case (Some out)
    show ?thesis
    proof (cases "length dbuf = 3")
      case True
      with Some 2(3) show ?thesis
        by (auto simp: length_quantum_bytes)
    next
      case False
      with Some 2(3,4) have "decodeQuantum (dbuf @ [out]) cs = Inr (bs, rest)"
        and "length (dbuf @ [out]) \<le> 3"
        by simp_all
      with 2(2) [OF Some False] show ?thesis
        by simp
    qed
  next
    case None
    show ?thesis
    proof (cases "is_newline c")
      case True
      with None 2(3) have "decodeQuantum dbuf cs = Inr (bs, rest)"
        by simp
      with 2(1) [OF None True] 2(4) show ?thesis
        by auto
    next
      case False
      with None 2(3) have pad: "c = padChar" and two: "2 \<le> length dbuf"
        by (auto split: if_splits)
      show ?thesis
      proof (cases "length dbuf = 2")
        case True
        with None False pad 2(3) obtain c' cs' where "skip_newlines cs = c' # cs'"
          and "bs = quantum_bytes dbuf" and "rest = []"
          by (auto split: if_splits list.splits)
        moreover from this(1) have "1 \<le> length cs"
          using length_skip_newlines [of cs] by simp
        ultimately show ?thesis
          using True by (simp add: length_quantum_bytes)
      next
        case neq: False
        with two 2(4) have three: "length dbuf = 3" by simp
        with None False pad 2(3) have "bs = quantum_bytes dbuf" and "rest = []"
          by (auto split: if_splits)
        then show ?thesis
          using three by (simp add: length_quantum_bytes)
      qed
    qed
  qed
qed

lemma DecodeString_length:
  "DecodeString s = Inr v \<Longrightarrow> length (EncodeToString v) \<le> length s"
proof (induction s arbitrary: v rule: DecodeString.induct)
  case (1 src)
  show ?case
  proof (cases "src = []")
    case True
    with 1(2) show ?thesis
      by (simp add: DecodeString.simps [of "[]"])
  next
    case False
    from 1(2) False obtain bs rest bs' where dq: "decodeQuantum [] src = Inr (bs, rest)"
      and ds: "DecodeString rest = Inr bs'" and v: "v = bs @ bs'"
      by (subst (asm) DecodeString.simps) (auto split: sum.splits prod.splits)
    from 1(1) [OF False dq refl ds] have ih: "length (EncodeToString bs') \<le> length rest"
      by simp
    from decodeQuantum_lengths [OF dq]
    have l: "length bs \<le> 3" "length bs = 3 \<or> rest = []"
      "bs \<noteq> [] \<longrightarrow> length rest + 4 \<le> length src"
      by simp_all
    show ?thesis
    proof (cases "length bs = 3")
      case True
      with l(3) ih show ?thesis
        by (auto simp: v length_EncodeToString div3_step)
    next
      case ne: False
      with l(2) have "rest = []" by simp
      with ds have "bs' = []"
        by (simp add: DecodeString.simps [of "[]"])
      moreover from l(1) ne have "(length bs + 2) div 3 \<le> 1"
        by presburger
      moreover have "bs = [] \<longrightarrow> (length bs + 2) div 3 = 0"
        by simp
      ultimately show ?thesis
        using l(3) \<open>rest = []\<close> by (cases "bs = []") (simp_all add: v length_EncodeToString)
    qed
  qed
qed

subsection \<open>The names of a loaded record\<close>

lemma Split_not_Nil: "Split s sep \<noteq> []"
  using Split_length_sep [of s sep] by auto

lemma Split_parts_no_sep: "p \<in> set (Split s sep) \<Longrightarrow> sep \<notin> set p"
proof (induction s arbitrary: p)
  case Nil
  then show ?case by simp
next
  case (Cons c cs)
  show ?case
  proof (cases "c = sep")
    case True
    with Cons show ?thesis by auto
  next
    case False
    obtain q qs where q: "Split cs sep = q # qs"
      using Split_not_Nil [of cs sep] by (cases "Split cs sep") auto
    with False Cons.prems have "p = c # q \<or> p \<in> set qs"
      by simp
    then show ?thesis
    proof
      assume "p = c # q"
      moreover have "sep \<notin> set q"
        using Cons.IH [of q] q by simp
      ultimately show ?thesis using False by simp
    next
      assume "p \<in> set qs"
      then show ?thesis using Cons.IH [of p] q by simp
    qed
  qed
qed

lemma Split_one: "Split s sep = [v] \<Longrightarrow> s = v"
proof -
  assume a: "Split s sep = [v]"
  then have "length (Split s sep) = Suc 0" by simp
  then have "sep \<notin> set s" using Split_single [of s sep] by blast
  then have "Split s sep = [s]" by (rule Split_no_sep)
  with a show ?thesis by simp
qed

lemma Split_two: "Split l sep = [k, part] \<Longrightarrow> l = k @ sep # part"
proof (induction l arbitrary: k)
  case Nil
  then show ?case by simp
next
  case (Cons c cs)
  show ?case
  proof (cases "c = sep")
    case True
    with Cons.prems have "k = []" and "Split cs sep = [part]"
      by simp_all
    then show ?thesis
      using True by (simp add: Split_one)
  next
    case False
    obtain q qs where q: "Split cs sep = q # qs"
      using Split_not_Nil [of cs sep] by (cases "Split cs sep") auto
    with False Cons.prems have "k = c # q" and "qs = [part]"
      by simp_all
    with q Cons.IH [of q] show ?thesis
      by simp
  qed
qed

lemma parse_Inr:
  assumes "parse_hpoon_line l = Inr (k, v)"
  shows "\<exists>part. l = k @ KV_SEPERATOR # part \<and> KV_SEPERATOR \<notin> set k
           \<and> DecodeString part = Inr v"
proof -
  let ?parts = "Split l KV_SEPERATOR"
  from assms have len: "length ?parts = 2"
    by (auto simp: parse_hpoon_line_def Let_def split: if_splits)
  then obtain a b where ab: "?parts = [a, b]"
    by (cases ?parts; cases "tl ?parts") auto
  with assms have "a = k" and d: "DecodeString b = Inr v"
    by (auto simp: parse_hpoon_line_def Let_def split: sum.splits)
  with ab have sp: "?parts = [k, b]" by simp
  then have "l = k @ KV_SEPERATOR # b"
    by (rule Split_two)
  moreover have "KV_SEPERATOR \<notin> set k"
    using Split_parts_no_sep [of k l KV_SEPERATOR] sp by simp
  ultimately show ?thesis
    using d by blast
qed

lemma parse_Inr_facts:
  assumes "parse_hpoon_line l = Inr (k, v)"
  shows "KV_SEPERATOR \<notin> set k" and "set k \<subseteq> set l"
    and "length (create_hpoon_line k v) \<le> length l"
proof -
  from parse_Inr [OF assms] obtain part where l: "l = k @ KV_SEPERATOR # part"
    and k: "KV_SEPERATOR \<notin> set k" and d: "DecodeString part = Inr v"
    by blast
  show "KV_SEPERATOR \<notin> set k" by (rule k)
  show "set k \<subseteq> set l" by (auto simp: l)
  show "length (create_hpoon_line k v) \<le> length l"
    using DecodeString_length [OF d] by (simp add: l create_hpoon_line_def)
qed

lemma well_formed_values_mem:
  "v \<in> set (well_formed_values k ls) \<Longrightarrow> \<exists>l \<in> set ls. parse_hpoon_line l = Inr (k, v)"
  by (induction ls) (auto simp: well_formed_values_simps split: sum.splits if_splits)

lemma raw_lines_no_newline: "l \<in> set (raw_lines content) \<Longrightarrow> CHR 0x0A \<notin> set l"
proof -
  assume "l \<in> set (raw_lines content)"
  then have "l \<in> set (Split content (CHR 0x0A))"
    by (auto simp: raw_lines_def Let_def split: if_splits dest: in_set_butlastD)
  then show ?thesis by (rule Split_parts_no_sep)
qed

lemma dropCR_facts: "length (dropCR d) \<le> length d" "set (dropCR d) \<subseteq> set d"
  by (auto simp: dropCR_def dest: in_set_butlastD)

text \<open>What is known of every name in a record that was loaded.\<close>

lemma loaded_marks:
  assumes "scannable w" and "marks (loaded w) k = Some v"
  shows "k \<noteq> LAST_MARKED_KEY" and "KV_SEPERATOR \<notin> set k" and "CHR 0x0A \<notin> set k"
    and "length (create_hpoon_line k v) < MaxScanTokenSize"
proof -
  from assms(2) show k: "k \<noteq> LAST_MARKED_KEY"
    by (auto simp: loaded_def split: if_splits)
  from assms(2) have "well_formed_values k (stored_lines w) \<noteq> []"
    and "v = last (well_formed_values k (stored_lines w))"
    by (auto simp: loaded_def split: if_splits)
  then have "v \<in> set (well_formed_values k (stored_lines w))"
    by simp
  then obtain l where l: "l \<in> set (stored_lines w)" and p: "parse_hpoon_line l = Inr (k, v)"
    by (blast dest: well_formed_values_mem)
  from l obtain raw where raw: "raw \<in> set (raw_lines (store_content w))" and d: "l = dropCR raw"
    by (auto simp: stored_lines_scannable [OF assms(1)])
  from raw assms(1) have short: "length raw < MaxScanTokenSize"
    by (simp add: scannable_iff)
  from raw have nl: "CHR 0x0A \<notin> set raw"
    by (rule raw_lines_no_newline)
  show "KV_SEPERATOR \<notin> set k"
    by (rule parse_Inr_facts(1) [OF p])
  show "CHR 0x0A \<notin> set k"
    using parse_Inr_facts(2) [OF p] dropCR_facts(2) [of raw] nl d by blast
  show "length (create_hpoon_line k v) < MaxScanTokenSize"
    using parse_Inr_facts(3) [OF p] dropCR_facts(1) [of raw] short d by simp
qed

subsection \<open>Saving, then loading\<close>

lemma encode_mem: "i < 64 \<Longrightarrow> encode i \<in> set encodeStd"
  by (simp add: encode_def length_encodeStd)

lemma EncodeToString_alphabet: "set (EncodeToString p) \<subseteq> set encodeStd \<union> {padChar}"
  by (induction p rule: EncodeToString.induct)
     (simp_all add: Let_def and_0x3F encode_mem)

lemma EncodeToString_no_newline:
  "CHR 0x0A \<notin> set (EncodeToString p)" "CHR 0x0D \<notin> set (EncodeToString p)"
proof -
  have "CHR 0x0A \<notin> set encodeStd \<union> {padChar}" "CHR 0x0D \<notin> set encodeStd \<union> {padChar}"
    by (simp_all add: encodeStd_def padChar_def)
  then show "CHR 0x0A \<notin> set (EncodeToString p)" "CHR 0x0D \<notin> set (EncodeToString p)"
    using EncodeToString_alphabet [of p] by blast+
qed

text \<open>A line that a save writes for a path that is not empty comes back from the scanner as it is.\<close>

lemma created_line:
  assumes "v \<noteq> []" and "CHR 0x0A \<notin> set k"
  shows "CHR 0x0A \<notin> set (create_hpoon_line k v)" and "dropCR (create_hpoon_line k v) = create_hpoon_line k v"
proof -
  show "CHR 0x0A \<notin> set (create_hpoon_line k v)"
    using assms(2) EncodeToString_no_newline(1) [of v]
    by (simp add: create_hpoon_line_def KV_SEPERATOR_def)
  have ne: "EncodeToString v \<noteq> []"
    using assms(1) by (rule EncodeToString_nonempty)
  then have "last (create_hpoon_line k v) = last (EncodeToString v)"
    by (simp add: create_hpoon_line_def)
  moreover have "last (EncodeToString v) \<in> set (EncodeToString v)"
    using ne by simp
  ultimately have "last (create_hpoon_line k v) \<noteq> CHR 0x0D"
    using EncodeToString_no_newline(2) [of v] by metis
  then show "dropCR (create_hpoon_line k v) = create_hpoon_line k v"
    by (simp add: dropCR_def)
qed

lemma Split_unlines:
  "\<forall>l \<in> set ls. sep \<notin> set l \<Longrightarrow> Split (concat (map (\<lambda>l. l @ [sep]) ls)) sep = ls @ [[]]"
  by (induction ls) (simp_all add: Split_append_sep)

lemma raw_lines_unlines:
  "\<forall>l \<in> set ls. CHR 0x0A \<notin> set l \<Longrightarrow> raw_lines (concat (map (\<lambda>l. l @ [CHR 0x0A]) ls)) = ls"
  by (simp add: raw_lines_def Split_unlines)

lemma Scan_unlines:
  assumes "\<forall>l \<in> set ls. CHR 0x0A \<notin> set l \<and> \<not> too_long l \<and> dropCR l = l"
  shows "Scan (concat (map (\<lambda>l. l @ [CHR 0x0A]) ls)) = (ls, False)"
proof -
  have r: "raw_lines (concat (map (\<lambda>l. l @ [CHR 0x0A]) ls)) = ls"
    using assms by (intro raw_lines_unlines) blast
  have t: "takeWhile (\<lambda>l. \<not> too_long l) ls = ls"
    using assms by (simp add: takeWhile_eq_all_conv)
  have m: "map dropCR ls = ls"
    using assms by (simp add: map_idI)
  show ?thesis
    using assms by (simp add: Scan_def r t m)
qed

lemma well_formed_values_created:
  assumes "\<forall>k \<in> set names. KV_SEPERATOR \<notin> set k"
  shows "well_formed_values key (map (\<lambda>k. create_hpoon_line k (f k)) names) =
           map f (filter (\<lambda>k. k = key \<and> KV_SEPERATOR \<notin> set (EncodeToString (f k))) names)"
  using assms
  by (induction names) (auto simp: well_formed_values_simps parse_create_eq)

lemma last_constant: "xs \<noteq> [] \<Longrightarrow> \<forall>y \<in> set xs. y = c \<Longrightarrow> last xs = c"
  by (induction xs) auto

lemma save_content:
  assumes "last_marked d \<noteq> []"
  shows "store_file (save_hpoon ks d w) =
           Some (concat (map (\<lambda>l. l @ [CHR 0x0A])
             (create_hpoon_line LAST_MARKED_KEY (last_marked d)
              # map (\<lambda>k. create_hpoon_line k (the (marks d k)))
                    (filter (\<lambda>k. \<exists>v. marks d k = Some v \<and> v \<noteq> []) ks))))"
  using assms
  by (simp add: save_hpoon_def write_hpoon_file_def non_value_def write_marks_filter
      map_concat comp_def)

text \<open>
  Claim C7, as the code has it: for every record whose \<open>last_marked\<close> is not empty and in
  which no name with a path that is not empty contains a newline, and every order \<open>ks\<close> in
  which the loop visits the names, the save replaces the content of the file, whatever it
  was, by these lines, each ended by a newline: first the line of the reserved key (\<open>_\<close>,
  the separator, the base64 of \<open>last_marked\<close>), then one line for each name whose path is
  not empty, each such name once; and the lines of the file, as a reader cuts them at the
  newlines, are these and no others.
\<close>

theorem save_layout:
  assumes "last_marked data \<noteq> []" and "range_order ks (marks data)"
    and "\<forall>k v. marks data k = Some v \<and> v \<noteq> [] \<longrightarrow> CHR 0x0A \<notin> set k"
  shows "\<exists>names content. distinct names
           \<and> set names = {k. \<exists>v. marks data k = Some v \<and> v \<noteq> []}
           \<and> store_file (save_hpoon ks data w) = Some content
           \<and> content = concat (map (\<lambda>l. l @ [CHR 0x0A])
                 ((''_'' @ ''/'' @ EncodeToString (last_marked data))
                  # map (\<lambda>k. create_hpoon_line k (the (marks data k))) names))
           \<and> raw_lines content =
                 (''_'' @ ''/'' @ EncodeToString (last_marked data))
                 # map (\<lambda>k. create_hpoon_line k (the (marks data k))) names"
proof -
  define names where "names = filter (\<lambda>k. \<exists>v. marks data k = Some v \<and> v \<noteq> []) ks"
  define ls where "ls = (''_'' @ ''/'' @ EncodeToString (last_marked data))
                 # map (\<lambda>k. create_hpoon_line k (the (marks data k))) names"
  have first: "create_hpoon_line LAST_MARKED_KEY (last_marked data)
               = ''_'' @ ''/'' @ EncodeToString (last_marked data)"
    by (simp add: create_hpoon_line_def LAST_MARKED_KEY_def KV_SEPERATOR_def)
  have "distinct names"
    using assms(2) by (simp add: names_def range_order_def)
  moreover have "set names = {k. \<exists>v. marks data k = Some v \<and> v \<noteq> []}"
    using assms(2) by (auto simp: names_def range_order_def)
  moreover have "store_file (save_hpoon ks data w) = Some (concat (map (\<lambda>l. l @ [CHR 0x0A]) ls))"
    using save_content [OF assms(1), of ks w] by (simp add: ls_def names_def first)
  moreover have "raw_lines (concat (map (\<lambda>l. l @ [CHR 0x0A]) ls)) = ls"
  proof (rule raw_lines_unlines, rule ballI)
    fix l
    assume "l \<in> set ls"
    then consider "l = create_hpoon_line LAST_MARKED_KEY (last_marked data)"
      | k where "k \<in> set names" "l = create_hpoon_line k (the (marks data k))"
      by (auto simp: ls_def first)
    then show "CHR 0x0A \<notin> set l"
    proof cases
      case 1
      then show ?thesis
        using created_line(1) [OF assms(1), of LAST_MARKED_KEY] by (simp add: LAST_MARKED_KEY_def)
    next
      case 2
      from 2(1) obtain v where v: "marks data k = Some v" "v \<noteq> []"
        by (auto simp: names_def)
      with assms(3) have "CHR 0x0A \<notin> set k"
        by blast
      with v 2(2) show ?thesis
        using created_line(1) [OF v(2), of k] by simp
    qed
  qed
  ultimately show ?thesis
    unfolding ls_def by blast
qed

theorem save_layout_witness:
  "last_marked \<lparr>last_marked = ''/tmp/foo'', marks = [''x'' \<mapsto> ''/tmp/foo'', ''y'' \<mapsto> []]\<rparr> \<noteq> []
   \<and> range_order [''y'', ''x'']
        (marks \<lparr>last_marked = ''/tmp/foo'', marks = [''x'' \<mapsto> ''/tmp/foo'', ''y'' \<mapsto> []]\<rparr>)
   \<and> CHR 0x0A \<notin> set ''x''
   \<and> (\<exists>names content. distinct names
         \<and> set names = {k. \<exists>v. marks \<lparr>last_marked = ''/tmp/foo'',
                                    marks = [''x'' \<mapsto> ''/tmp/foo'', ''y'' \<mapsto> []]\<rparr> k = Some v
                              \<and> v \<noteq> []}
         \<and> store_file (save_hpoon [''y'', ''x'']
               \<lparr>last_marked = ''/tmp/foo'', marks = [''x'' \<mapsto> ''/tmp/foo'', ''y'' \<mapsto> []]\<rparr>
               (example_world (Some ''old content''))) = Some content
         \<and> content = concat (map (\<lambda>l. l @ [CHR 0x0A])
               ((''_'' @ ''/'' @ EncodeToString (last_marked
                     \<lparr>last_marked = ''/tmp/foo'', marks = [''x'' \<mapsto> ''/tmp/foo'', ''y'' \<mapsto> []]\<rparr>))
                # map (\<lambda>k. create_hpoon_line k (the (marks
                     \<lparr>last_marked = ''/tmp/foo'', marks = [''x'' \<mapsto> ''/tmp/foo'', ''y'' \<mapsto> []]\<rparr> k)))
                    names))
         \<and> raw_lines content =
               (''_'' @ ''/'' @ EncodeToString (last_marked
                     \<lparr>last_marked = ''/tmp/foo'', marks = [''x'' \<mapsto> ''/tmp/foo'', ''y'' \<mapsto> []]\<rparr>))
                # map (\<lambda>k. create_hpoon_line k (the (marks
                     \<lparr>last_marked = ''/tmp/foo'', marks = [''x'' \<mapsto> ''/tmp/foo'', ''y'' \<mapsto> []]\<rparr> k)))
                    names)"
proof -
  let ?d = "\<lparr>last_marked = ''/tmp/foo'', marks = [''x'' \<mapsto> ''/tmp/foo'', ''y'' \<mapsto> []]\<rparr>"
  have h1: "last_marked ?d \<noteq> []"
    by simp
  have h2: "range_order [''y'', ''x''] (marks ?d)"
    by (auto simp: range_order_def)
  have h3: "\<forall>k v. marks ?d k = Some v \<and> v \<noteq> [] \<longrightarrow> CHR 0x0A \<notin> set k"
    by (auto split: if_splits)
  have x: "CHR 0x0A \<notin> set ''x''"
    by simp
  show ?thesis
    by (intro conjI h1 h2 x save_layout [OF h1 h2 h3])
qed

text \<open>
  A name may hold a newline: it comes from the command line as it is. For the one name
  \<open>a\<close>, newline, \<open>b\<close> with the path \<open>/x\<close> the file has three lines, of which the second,
  \<open>a\<close>, is the line of no name.
\<close>

theorem save_layout_counterexample:
  "last_marked \<lparr>last_marked = ''/x'', marks = [''a'' @ [CHR 0x0A] @ ''b'' \<mapsto> ''/x'']\<rparr> \<noteq> []
   \<and> range_order [''a'' @ [CHR 0x0A] @ ''b'']
        (marks \<lparr>last_marked = ''/x'', marks = [''a'' @ [CHR 0x0A] @ ''b'' \<mapsto> ''/x'']\<rparr>)
   \<and> store_file (save_hpoon [''a'' @ [CHR 0x0A] @ ''b'']
         \<lparr>last_marked = ''/x'', marks = [''a'' @ [CHR 0x0A] @ ''b'' \<mapsto> ''/x'']\<rparr>
         (example_world None))
       = Some (''_/L3g='' @ [CHR 0x0A] @ ''a'' @ [CHR 0x0A] @ ''b/L3g='' @ [CHR 0x0A])
   \<and> raw_lines (''_/L3g='' @ [CHR 0x0A] @ ''a'' @ [CHR 0x0A] @ ''b/L3g='' @ [CHR 0x0A])
       = [''_/L3g='', ''a'', ''b/L3g='']
   \<and> parse_hpoon_line ''a'' = Inl (InvalidFormat ''a'')"
proof -
  have e: "EncodeToString ''/x'' = ''L3g=''"
    by (simp add: Let_def encode_def encodeStd_def padChar_def)
  have "store_file (save_hpoon [''a'' @ [CHR 0x0A] @ ''b'']
         \<lparr>last_marked = ''/x'', marks = [''a'' @ [CHR 0x0A] @ ''b'' \<mapsto> ''/x'']\<rparr>
         (example_world None))
       = Some (''_/L3g='' @ [CHR 0x0A] @ ''a'' @ [CHR 0x0A] @ ''b/L3g='' @ [CHR 0x0A])"
    by (simp add: save_hpoon_def write_hpoon_file_def non_value_def create_hpoon_line_def e
        LAST_MARKED_KEY_def KV_SEPERATOR_def del: EncodeToString.simps)
  moreover have "raw_lines (''_/L3g='' @ [CHR 0x0A] @ ''a'' @ [CHR 0x0A] @ ''b/L3g='' @ [CHR 0x0A])
       = [''_/L3g='', ''a'', ''b/L3g='']"
    by (simp add: raw_lines_def)
  moreover have "parse_hpoon_line ''a'' = Inl (InvalidFormat ''a'')"
    by (simp add: parse_hpoon_line_def KV_SEPERATOR_def)
  moreover have "range_order [''a'' @ [CHR 0x0A] @ ''b'']
        (marks \<lparr>last_marked = ''/x'', marks = [''a'' @ [CHR 0x0A] @ ''b'' \<mapsto> ''/x'']\<rparr>)"
    by (simp add: range_order_def)
  ultimately show ?thesis
    by simp
qed

lemma stored_lines_eq:
  "store_file w = Some content \<Longrightarrow> Scan content = (ls, False)
   \<Longrightarrow> scannable w \<and> stored_lines w = ls"
  by (simp add: scannable_def stored_lines_def store_content_def)

text \<open>The store after a save of a record whose names and paths fit the file format.\<close>

lemma reload:
  assumes lm: "last_marked d \<noteq> []"
    and l0: "length (create_hpoon_line LAST_MARKED_KEY (last_marked d)) < MaxScanTokenSize"
    and wr: "\<forall>k v. marks d k = Some v \<and> v \<noteq> [] \<longrightarrow>
               KV_SEPERATOR \<notin> set k \<and> CHR 0x0A \<notin> set k
               \<and> length (create_hpoon_line k v) < MaxScanTokenSize"
  shows "scannable (save_hpoon ks d w)"
    and "stored_lines (save_hpoon ks d w) =
           create_hpoon_line LAST_MARKED_KEY (last_marked d)
           # map (\<lambda>k. create_hpoon_line k (the (marks d k)))
                 (filter (\<lambda>k. \<exists>v. marks d k = Some v \<and> v \<noteq> []) ks)"
proof -
  let ?names = "filter (\<lambda>k. \<exists>v. marks d k = Some v \<and> v \<noteq> []) ks"
  let ?ls = "create_hpoon_line LAST_MARKED_KEY (last_marked d)
             # map (\<lambda>k. create_hpoon_line k (the (marks d k))) ?names"
  have first: "CHR 0x0A \<notin> set (create_hpoon_line LAST_MARKED_KEY (last_marked d))
      \<and> \<not> too_long (create_hpoon_line LAST_MARKED_KEY (last_marked d))
      \<and> dropCR (create_hpoon_line LAST_MARKED_KEY (last_marked d))
          = create_hpoon_line LAST_MARKED_KEY (last_marked d)"
    using created_line [OF lm, of LAST_MARKED_KEY] l0
    by (simp add: LAST_MARKED_KEY_def too_long_def)
  have rest: "CHR 0x0A \<notin> set (create_hpoon_line k (the (marks d k)))
      \<and> \<not> too_long (create_hpoon_line k (the (marks d k)))
      \<and> dropCR (create_hpoon_line k (the (marks d k))) = create_hpoon_line k (the (marks d k))"
    if "k \<in> set ?names" for k
  proof -
    from that obtain v where v: "marks d k = Some v" "v \<noteq> []"
      by auto
    with wr have "KV_SEPERATOR \<notin> set k" "CHR 0x0A \<notin> set k"
      "length (create_hpoon_line k v) < MaxScanTokenSize"
      by blast+
    then show ?thesis
      using created_line [OF v(2), of k] v(1) by (simp add: too_long_def)
  qed
  have "\<forall>l \<in> set ?ls. CHR 0x0A \<notin> set l \<and> \<not> too_long l \<and> dropCR l = l"
    using first rest by auto
  then have "Scan (concat (map (\<lambda>l. l @ [CHR 0x0A]) ?ls)) = (?ls, False)"
    by (rule Scan_unlines)
  with save_content [OF lm, of ks w]
  have "scannable (save_hpoon ks d w) \<and> stored_lines (save_hpoon ks d w) = ?ls"
    by (rule stored_lines_eq)
  then show "scannable (save_hpoon ks d w)" and "stored_lines (save_hpoon ks d w) = ?ls"
    by simp_all
qed

lemma reload_last_marked:
  assumes lm: "last_marked d \<noteq> []"
    and l0: "length (create_hpoon_line LAST_MARKED_KEY (last_marked d)) < MaxScanTokenSize"
    and wr: "\<forall>k v. marks d k = Some v \<and> v \<noteq> [] \<longrightarrow>
               KV_SEPERATOR \<notin> set k \<and> CHR 0x0A \<notin> set k
               \<and> length (create_hpoon_line k v) < MaxScanTokenSize"
    and enc: "KV_SEPERATOR \<notin> set (EncodeToString (last_marked d))"
    and res: "marks d LAST_MARKED_KEY = None \<or> marks d LAST_MARKED_KEY = Some (last_marked d)"
  shows "last_marked (loaded (save_hpoon ks d w)) = last_marked d"
proof -
  let ?names = "filter (\<lambda>k. \<exists>v. marks d k = Some v \<and> v \<noteq> []) ks"
  let ?f = "\<lambda>k. the (marks d k)"
  let ?vs = "well_formed_values LAST_MARKED_KEY (stored_lines (save_hpoon ks d w))"
  have keys: "\<forall>k \<in> set ?names. KV_SEPERATOR \<notin> set k"
    using wr by auto
  have p0: "parse_hpoon_line (create_hpoon_line LAST_MARKED_KEY (last_marked d))
            = Inr (LAST_MARKED_KEY, last_marked d)"
    using enc by (subst parse_create_eq) (simp_all add: LAST_MARKED_KEY_def KV_SEPERATOR_def)
  have vs: "?vs = last_marked d
      # map ?f (filter (\<lambda>k. k = LAST_MARKED_KEY \<and> KV_SEPERATOR \<notin> set (EncodeToString (?f k))) ?names)"
    by (simp add: reload(2) [OF lm l0 wr] well_formed_values_simps p0
        well_formed_values_created [OF keys])
  have "\<forall>y \<in> set ?vs. y = last_marked d"
    using res by (auto simp: vs)
  moreover have "?vs \<noteq> []"
    by (simp add: vs)
  ultimately have "last ?vs = last_marked d"
    by (intro last_constant)
  with \<open>?vs \<noteq> []\<close> show ?thesis
    by (simp add: loaded_def)
qed

lemma reload_mark:
  assumes lm: "last_marked d \<noteq> []"
    and l0: "length (create_hpoon_line LAST_MARKED_KEY (last_marked d)) < MaxScanTokenSize"
    and wr: "\<forall>k v. marks d k = Some v \<and> v \<noteq> [] \<longrightarrow>
               KV_SEPERATOR \<notin> set k \<and> CHR 0x0A \<notin> set k
               \<and> length (create_hpoon_line k v) < MaxScanTokenSize"
    and key: "key \<noteq> LAST_MARKED_KEY" "key \<in> set ks" "marks d key = Some v" "v \<noteq> []"
    and enc: "KV_SEPERATOR \<notin> set (EncodeToString v)"
  shows "marks (loaded (save_hpoon ks d w)) key = Some v"
proof -
  let ?names = "filter (\<lambda>k. \<exists>v. marks d k = Some v \<and> v \<noteq> []) ks"
  let ?f = "\<lambda>k. the (marks d k)"
  let ?vs = "well_formed_values key (stored_lines (save_hpoon ks d w))"
  let ?sel = "filter (\<lambda>k. k = key \<and> KV_SEPERATOR \<notin> set (EncodeToString (?f k))) ?names"
  have keys: "\<forall>k \<in> set ?names. KV_SEPERATOR \<notin> set k"
    using wr by auto
  have p0: "parse_hpoon_line (create_hpoon_line LAST_MARKED_KEY (last_marked d))
            = (if KV_SEPERATOR \<in> set (EncodeToString (last_marked d))
               then Inl (InvalidFormat (create_hpoon_line LAST_MARKED_KEY (last_marked d)))
               else Inr (LAST_MARKED_KEY, last_marked d))"
    by (subst parse_create_eq) (simp_all add: LAST_MARKED_KEY_def KV_SEPERATOR_def)
  have vs: "?vs = map ?f ?sel"
    using key(1)
    by (simp add: reload(2) [OF lm l0 wr] well_formed_values_simps p0
        well_formed_values_created [OF keys])
  have "key \<in> set ?sel"
    using key enc by simp
  then have "?sel \<noteq> []"
    by (metis empty_iff empty_set)
  then have ne: "?vs \<noteq> []"
    by (simp add: vs)
  moreover have "\<forall>y \<in> set ?vs. y = v"
    using key(3) by (auto simp: vs)
  ultimately have "last ?vs = v"
    by (intro last_constant)
  with ne key(1) show ?thesis
    by (simp add: loaded_def)
qed

lemma hpoon_set_mark_eq:
  assumes "scannable w"
  shows "hpoon_set_mark ks fpath name w =
           (Inr (),
            save_hpoon ks
              (case name of
                 None \<Rightarrow> (loaded w)\<lparr>last_marked := fpath\<rparr>
               | Some n \<Rightarrow> (loaded w)\<lparr>last_marked := fpath,
                                      marks := (marks (loaded w))(n \<mapsto> fpath)\<rparr>)
              (w\<lparr>store_file := Some (store_content w),
                 stderr := stderr w @ line_errors (stored_lines w)\<rparr>))"
  using assms by (simp add: hpoon_set_mark_def load_hpoon_eq Let_def split: option.splits)

lemma loaded_empty_store:
  assumes "store_file w = Some []"
  shows "scannable w" and "loaded w = \<lparr>last_marked = [], marks = Map.empty\<rparr>"
proof -
  have s: "scannable w \<and> stored_lines w = []"
    using assms Scan_empty by (rule stored_lines_eq)
  then show "scannable w" by simp
  show "loaded w = \<lparr>last_marked = [], marks = Map.empty\<rparr>"
    using s by (simp add: loaded_def well_formed_values_simps)
qed

lemma save_empty: "last_marked d = [] \<Longrightarrow> store_file (save_hpoon ks d w) = Some []"
  by (simp add: save_hpoon_def write_hpoon_file_def non_value_def)

lemma load_hpoon_Inr: "fst (load_hpoon w) = Inr r \<Longrightarrow> r = loaded w"
  by (auto simp: load_hpoon_eq split: if_splits)

lemma example_stored_lines:
  "stored_lines (example_world (Some example_content))
   = [''junk'', ''x/YQ=='', ''_/Yg=='', ''x/Yw=='']"
  by (simp add: stored_lines_def store_content_def example_world_def example_lines)

lemma example_loaded:
  "marks (loaded (example_world (Some example_content))) = [''x'' \<mapsto> ''c'']"
  "last_marked (loaded (example_world (Some example_content))) = ''b''"
  by (auto simp: loaded_def example_stored_lines well_formed_values_simps example_parse
      LAST_MARKED_KEY_def fun_eq_iff)

lemma example_load:
  "fst (load_hpoon (example_world (Some example_content)))
   = Inr (loaded (example_world (Some example_content)))"
  by (simp add: load_hpoon_eq example_scannable)

lemma example_path:
  "KV_SEPERATOR \<notin> set (EncodeToString ''/tmp/foo'')"
  "length (create_hpoon_line k ''/tmp/foo'') = length k + 13"
  by (simp_all add: create_hpoon_line_def length_EncodeToString
      KV_SEPERATOR_def Let_def encode_def encodeStd_def padChar_def)

lemma empty_world:
  "scannable (example_world None)"
  "loaded (example_world None) = \<lparr>last_marked = [], marks = Map.empty\<rparr>"
proof -
  have s: "scannable (example_world None) \<and> stored_lines (example_world None) = []"
    by (simp add: scannable_def stored_lines_def store_content_def example_world_def Scan_empty)
  then show "scannable (example_world None)" by simp
  show "loaded (example_world None) = \<lparr>last_marked = [], marks = Map.empty\<rparr>"
    using s by (simp add: loaded_def well_formed_values_simps)
qed

lemma EncodeToString_aaa:
  "EncodeToString (concat (replicate n ''aaa'')) = concat (replicate n ''YWFh'')"
  by (induction n) (simp_all add: Let_def encode_def encodeStd_def)

lemma length_concat_replicate: "length (concat (replicate n xs)) = n * length xs"
  by (induction n) simp_all

lemma set_concat_replicate: "set (concat (replicate n xs)) \<subseteq> set xs"
  by (induction n) auto

text \<open>
  A mark that is set can be read back when the store loads, the encoding of the path does
  not contain the separator, the lines written are shorter than the scanner's limit, and the
  name, if one is given, is not the reserved key, holds neither the separator nor a newline,
  and comes with a path that is not empty.
\<close>

lemma set_then_get_encodable:
  assumes "scannable w" and "fst (load_hpoon w) = Inr r"
    and "KV_SEPERATOR \<notin> set (EncodeToString p)"
    and "length (create_hpoon_line LAST_MARKED_KEY p) < MaxScanTokenSize"
    and "range_order ks (case name of None \<Rightarrow> marks r | Some x \<Rightarrow> (marks r)(x \<mapsto> p))"
    and "\<forall>x. name = Some x \<longrightarrow>
           p \<noteq> [] \<and> x \<noteq> LAST_MARKED_KEY \<and> KV_SEPERATOR \<notin> set x \<and> CHR 0x0A \<notin> set x
           \<and> length (create_hpoon_line x p) < MaxScanTokenSize"
  shows "fst (hpoon_set_mark ks p name w) = Inr ()
         \<and> fst (hpoon_get_mark None (snd (hpoon_set_mark ks p name w))) = Inr p
         \<and> (\<forall>x. name = Some x \<longrightarrow>
               fst (hpoon_get_mark (Some x) (snd (hpoon_set_mark ks p name w))) = Inr p)"
proof -
  have r: "r = loaded w"
    using assms(2) by (rule load_hpoon_Inr)
  define d where "d = (case name of
                 None \<Rightarrow> (loaded w)\<lparr>last_marked := p\<rparr>
               | Some n \<Rightarrow> (loaded w)\<lparr>last_marked := p, marks := (marks (loaded w))(n \<mapsto> p)\<rparr>)"
  define w1 where "w1 = w\<lparr>store_file := Some (store_content w),
                 stderr := stderr w @ line_errors (stored_lines w)\<rparr>"
  define w2 where "w2 = save_hpoon ks d w1"
  have sm: "hpoon_set_mark ks p name w = (Inr (), w2)"
    using hpoon_set_mark_eq [OF assms(1), of ks p name] by (simp add: d_def w1_def w2_def)
  have lm: "last_marked d = p"
    by (simp add: d_def split: option.splits)
  have md: "marks d = (case name of None \<Rightarrow> marks r | Some x \<Rightarrow> (marks r)(x \<mapsto> p))"
    by (simp add: d_def r split: option.splits)
  have goal: "fst (hpoon_get_mark None w2) = Inr p
         \<and> (\<forall>x. name = Some x \<longrightarrow> fst (hpoon_get_mark (Some x) w2) = Inr p)"
  proof (cases "p = []")
    case True
    with assms(6) have "name = None"
      by (cases name) auto
    moreover from True lm have "store_file w2 = Some []"
      by (simp add: w2_def save_empty)
    ultimately show ?thesis
      using True by (simp add: hpoon_get_mark_eq loaded_empty_store)
  next
    case False
    with lm have ne: "last_marked d \<noteq> []" by simp
    have l0: "length (create_hpoon_line LAST_MARKED_KEY (last_marked d)) < MaxScanTokenSize"
      using assms(4) lm by simp
    have wr: "\<forall>k v. marks d k = Some v \<and> v \<noteq> [] \<longrightarrow>
               KV_SEPERATOR \<notin> set k \<and> CHR 0x0A \<notin> set k
               \<and> length (create_hpoon_line k v) < MaxScanTokenSize"
    proof (intro allI impI)
      fix k v
      assume kv: "marks d k = Some v \<and> v \<noteq> []"
      show "KV_SEPERATOR \<notin> set k \<and> CHR 0x0A \<notin> set k
               \<and> length (create_hpoon_line k v) < MaxScanTokenSize"
      proof (cases "name = Some k")
        case True
        with kv have "v = p" by (simp add: md)
        with True assms(6) show ?thesis by simp
      next
        case False
        with kv have "marks (loaded w) k = Some v"
          by (auto simp: md r split: option.splits if_splits)
        then show ?thesis
          using loaded_marks [OF assms(1)] by blast
      qed
    qed
    have "marks (loaded w) LAST_MARKED_KEY = None"
      by (simp add: loaded_def)
    with assms(6) have res: "marks d LAST_MARKED_KEY = None
                             \<or> marks d LAST_MARKED_KEY = Some (last_marked d)"
      by (auto simp: md r split: option.splits)
    have enc: "KV_SEPERATOR \<notin> set (EncodeToString (last_marked d))"
      using assms(3) lm by simp
    have sc: "scannable w2"
      unfolding w2_def by (rule reload(1) [OF ne l0 wr])
    have "last_marked (loaded w2) = p"
      unfolding w2_def using reload_last_marked [OF ne l0 wr enc res, of ks w1] lm by simp
    then have g: "fst (hpoon_get_mark None w2) = Inr p"
      using sc by (simp add: hpoon_get_mark_eq)
    have "fst (hpoon_get_mark (Some x) w2) = Inr p" if "name = Some x" for x
    proof -
      from that assms(6) have x: "x \<noteq> LAST_MARKED_KEY" by simp
      from that assms(5) have "x \<in> set ks"
        by (auto simp: range_order_def)
      moreover from that have "marks d x = Some p"
        by (simp add: md)
      ultimately have "marks (loaded w2) x = Some p"
        unfolding w2_def using reload_mark [OF ne l0 wr x _ _ False assms(3), of ks w1] by simp
      then show ?thesis
        using sc by (simp add: hpoon_get_mark_eq)
    qed
    with g show ?thesis by blast
  qed
  show ?thesis
    unfolding sm fst_conv snd_conv using goal by blast
qed

text \<open>
  Claim C2 says that after \<open>hpoon_set_mark\<close> of a path \<open>p\<close> without a name,
  \<open>hpoon_get_mark\<close> without a name returns \<open>p\<close>, for every path. On a store that was
  cleaned, with the path \<open>/a?\<close>: the path is encoded as \<open>L2E/\<close>, so the line saved for it,
  \<open>_/L2E/\<close>, has two separators; the load that follows reports it as malformed and skips
  it, and \<open>hpoon_get_mark\<close> returns the empty string. The mark is lost.
\<close>

theorem set_then_get_loses_mark:
  "fst (hpoon_set_mark [] ''/a?'' None (example_world None)) = Inr ()
   \<and> store_file (snd (hpoon_set_mark [] ''/a?'' None (example_world None)))
       = Some (''_/L2E/'' @ [CHR 0x0A])
   \<and> parse_hpoon_line ''_/L2E/'' = Inl (InvalidFormat ''_/L2E/'')
   \<and> fst (hpoon_get_mark None (snd (hpoon_set_mark [] ''/a?'' None (example_world None))))
       = Inr []
   \<and> stderr (snd (hpoon_get_mark None
                      (snd (hpoon_set_mark [] ''/a?'' None (example_world None)))))
       = [InvalidFormat ''_/L2E/'']"
proof -
  have e: "EncodeToString ''/a?'' = ''L2E/''"
    by (simp add: Let_def encode_def encodeStd_def)
  define w2 where "w2 = snd (hpoon_set_mark [] ''/a?'' None (example_world None))"
  have sm: "hpoon_set_mark [] ''/a?'' None (example_world None) = (Inr (), w2)"
    unfolding w2_def by (simp add: hpoon_set_mark_eq empty_world)
  have l: "create_hpoon_line LAST_MARKED_KEY ''/a?'' = ''_/L2E/''"
    unfolding create_hpoon_line_def e by (simp add: LAST_MARKED_KEY_def KV_SEPERATOR_def)
  have sf: "store_file w2 = Some (''_/L2E/'' @ [CHR 0x0A])"
    unfolding w2_def
    by (simp add: hpoon_set_mark_eq empty_world save_content l)
  have "stored_lines (example_world None) = []"
    by (simp add: stored_lines_def store_content_def example_world_def Scan_empty)
  moreover have "stderr (example_world None) = []"
    by (simp add: example_world_def)
  ultimately have se: "stderr w2 = []"
    unfolding w2_def
    by (simp add: hpoon_set_mark_eq [OF empty_world(1)] save_hpoon_def write_hpoon_file_def
        line_errors_simps)
  have "Scan (''_/L2E/'' @ [CHR 0x0A]) = ([''_/L2E/''], False)"
    by (simp add: Scan_def raw_lines_def too_long_def MaxScanTokenSize_def dropCR_def)
  with sf have sl: "scannable w2 \<and> stored_lines w2 = [''_/L2E/'']"
    by (rule stored_lines_eq)
  have p: "parse_hpoon_line ''_/L2E/'' = Inl (InvalidFormat ''_/L2E/'')"
    by (simp add: parse_hpoon_line_def KV_SEPERATOR_def)
  with sl have "last_marked (loaded w2) = []"
    by (simp add: loaded_def well_formed_values_simps)
  with sl have g: "fst (hpoon_get_mark None w2) = Inr []"
    by (simp add: hpoon_get_mark_eq)
  have r: "stderr (snd (hpoon_get_mark None w2)) = [InvalidFormat ''_/L2E/'']"
    using sl se p by (simp add: hpoon_get_mark_eq line_errors_simps)
  show ?thesis
    unfolding sm fst_conv snd_conv using sf p g r by simp
qed

text \<open>
  Claim C10, as the code has it. Let the store load, with \<open>r\<close> the record loaded; let the
  base64 encoding of the path \<open>p\<close> not contain the separator, and the line of the reserved
  key for \<open>p\<close> have fewer than \<open>MaxScanTokenSize\<close> bytes. Then after
  \<open>hpoon_set_mark\<close> of \<open>p\<close> under the name \<open>_\<close> the store loads again, the record loaded
  has no name \<open>_\<close>, its \<open>last_marked\<close> is \<open>p\<close>, and \<open>hpoon_get_mark\<close> with the name \<open>_\<close>
  fails with the error "does not exist".
\<close>

theorem reserved_name_folded:
  assumes "scannable w" and "fst (load_hpoon w) = Inr r"
    and "KV_SEPERATOR \<notin> set (EncodeToString p)"
    and "length (create_hpoon_line ''_'' p) < MaxScanTokenSize"
    and "range_order ks ((marks r)(''_'' \<mapsto> p))"
  shows "fst (hpoon_set_mark ks p (Some ''_'') w) = Inr ()
         \<and> (\<exists>r' w'. load_hpoon (snd (hpoon_set_mark ks p (Some ''_'') w)) = (Inr r', w')
               \<and> marks r' ''_'' = None \<and> last_marked r' = p)
         \<and> fst (hpoon_get_mark (Some ''_'') (snd (hpoon_set_mark ks p (Some ''_'') w)))
             = Inl (MarkDoesNotExist ''_'')"
proof -
  define d where "d = (loaded w)\<lparr>last_marked := p, marks := (marks (loaded w))(''_'' \<mapsto> p)\<rparr>"
  define w1 where "w1 = w\<lparr>store_file := Some (store_content w),
                 stderr := stderr w @ line_errors (stored_lines w)\<rparr>"
  define w2 where "w2 = save_hpoon ks d w1"
  have sm: "hpoon_set_mark ks p (Some ''_'') w = (Inr (), w2)"
    using hpoon_set_mark_eq [OF assms(1), of ks p "Some ''_''"] by (simp add: d_def w1_def w2_def)
  have none: "marks (loaded w2) ''_'' = None"
    by (simp add: loaded_def LAST_MARKED_KEY_def)
  have "scannable w2 \<and> last_marked (loaded w2) = p"
  proof (cases "p = []")
    case True
    then have "store_file w2 = Some []"
      by (simp add: w2_def d_def save_empty)
    with True show ?thesis
      by (simp add: loaded_empty_store)
  next
    case False
    then have ne: "last_marked d \<noteq> []" by (simp add: d_def)
    have l0: "length (create_hpoon_line LAST_MARKED_KEY (last_marked d)) < MaxScanTokenSize"
      using assms(4) by (simp add: d_def LAST_MARKED_KEY_def)
    have wr: "\<forall>k v. marks d k = Some v \<and> v \<noteq> [] \<longrightarrow>
               KV_SEPERATOR \<notin> set k \<and> CHR 0x0A \<notin> set k
               \<and> length (create_hpoon_line k v) < MaxScanTokenSize"
    proof (intro allI impI)
      fix k v
      assume kv: "marks d k = Some v \<and> v \<noteq> []"
      show "KV_SEPERATOR \<notin> set k \<and> CHR 0x0A \<notin> set k
               \<and> length (create_hpoon_line k v) < MaxScanTokenSize"
      proof (cases "k = ''_''")
        case True
        with kv have "v = p" by (simp add: d_def)
        with True assms(4) show ?thesis by (simp add: KV_SEPERATOR_def)
      next
        case False
        with kv have "marks (loaded w) k = Some v"
          by (simp add: d_def)
        then show ?thesis
          using loaded_marks [OF assms(1)] by blast
      qed
    qed
    have res: "marks d LAST_MARKED_KEY = None \<or> marks d LAST_MARKED_KEY = Some (last_marked d)"
      by (simp add: d_def LAST_MARKED_KEY_def)
    have enc: "KV_SEPERATOR \<notin> set (EncodeToString (last_marked d))"
      using assms(3) by (simp add: d_def)
    have "scannable w2"
      unfolding w2_def by (rule reload(1) [OF ne l0 wr])
    moreover have "last_marked (loaded w2) = p"
      unfolding w2_def using reload_last_marked [OF ne l0 wr enc res, of ks w1]
      by (simp add: d_def)
    ultimately show ?thesis by simp
  qed
  then have sc: "scannable w2" and lm: "last_marked (loaded w2) = p"
    by simp_all
  from sc have "load_hpoon w2 = (Inr (loaded w2), w2\<lparr>store_file := Some (store_content w2),
        stderr := stderr w2 @ line_errors (stored_lines w2)\<rparr>)"
    by (simp add: load_hpoon_eq)
  with none lm have "\<exists>r' w'. load_hpoon w2 = (Inr r', w') \<and> marks r' ''_'' = None
      \<and> last_marked r' = p"
    by blast
  moreover have "fst (hpoon_get_mark (Some ''_'') w2) = Inl (MarkDoesNotExist ''_'')"
    using sc none by (simp add: hpoon_get_mark_eq)
  ultimately show ?thesis
    using sm by simp
qed

theorem reserved_name_folded_witness:
  "scannable (example_world (Some example_content))
   \<and> fst (load_hpoon (example_world (Some example_content)))
       = Inr (loaded (example_world (Some example_content)))
   \<and> KV_SEPERATOR \<notin> set (EncodeToString ''/tmp/foo'')
   \<and> length (create_hpoon_line ''_'' ''/tmp/foo'') < MaxScanTokenSize
   \<and> range_order [''_'', ''x'']
        ((marks (loaded (example_world (Some example_content))))(''_'' \<mapsto> ''/tmp/foo''))
   \<and> fst (hpoon_set_mark [''_'', ''x''] ''/tmp/foo'' (Some ''_'')
            (example_world (Some example_content))) = Inr ()
   \<and> (\<exists>r' w'. load_hpoon (snd (hpoon_set_mark [''_'', ''x''] ''/tmp/foo'' (Some ''_'')
                                  (example_world (Some example_content)))) = (Inr r', w')
         \<and> marks r' ''_'' = None \<and> last_marked r' = ''/tmp/foo'')
   \<and> fst (hpoon_get_mark (Some ''_'')
            (snd (hpoon_set_mark [''_'', ''x''] ''/tmp/foo'' (Some ''_'')
                   (example_world (Some example_content)))))
       = Inl (MarkDoesNotExist ''_'')"
proof -
  let ?w = "example_world (Some example_content)"
  have h3: "KV_SEPERATOR \<notin> set (EncodeToString ''/tmp/foo'')"
    by (rule example_path(1))
  have h4: "length (create_hpoon_line ''_'' ''/tmp/foo'') < MaxScanTokenSize"
    by (simp add: example_path(2) MaxScanTokenSize_def)
  have h5: "range_order [''_'', ''x''] ((marks (loaded ?w))(''_'' \<mapsto> ''/tmp/foo''))"
    by (auto simp: range_order_def example_loaded)
  show ?thesis
    by (intro conjI example_scannable example_load h3 h4 h5
        reserved_name_folded [OF example_scannable example_load h3 h4 h5, THEN conjunct1]
        reserved_name_folded [OF example_scannable example_load h3 h4 h5, THEN conjunct2, THEN conjunct1]
        reserved_name_folded [OF example_scannable example_load h3 h4 h5, THEN conjunct2, THEN conjunct2])
qed

text \<open>
  A path of 49152 bytes, whose encoding has 65536 characters, none of them the separator:
  the save succeeds, and the load that follows quits at the line that is too long.
\<close>

theorem reserved_name_folded_counterexample:
  "KV_SEPERATOR \<notin> set (EncodeToString (concat (replicate 16384 ''aaa'')))
   \<and> fst (hpoon_set_mark [''_''] (concat (replicate 16384 ''aaa'')) (Some ''_'')
            (example_world None)) = Inr ()
   \<and> fst (load_hpoon (snd (hpoon_set_mark [''_''] (concat (replicate 16384 ''aaa'')) (Some ''_'')
                              (example_world None)))) = Inl ParseError
   \<and> fst (hpoon_get_mark (Some ''_'')
            (snd (hpoon_set_mark [''_''] (concat (replicate 16384 ''aaa'')) (Some ''_'')
                   (example_world None)))) = Inl ParseError"
proof -
  define P where "P = concat (replicate 16384 ''aaa'')"
  define L where "L = create_hpoon_line LAST_MARKED_KEY P"
  define w2 where "w2 = snd (hpoon_set_mark [''_''] P (Some ''_'') (example_world None))"
  have enc: "EncodeToString P = concat (replicate 16384 ''YWFh'')"
    unfolding P_def by (rule EncodeToString_aaa)
  have sep: "KV_SEPERATOR \<notin> set (EncodeToString P)"
    using set_concat_replicate [of 16384 "''YWFh''"] unfolding enc
    by (auto simp: KV_SEPERATOR_def)
  have "length P = 49152"
    by (simp add: P_def length_concat_replicate)
  then have ne: "P \<noteq> []"
    by auto
  have "length L = 65538"
    by (simp add: L_def create_hpoon_line_def enc length_concat_replicate LAST_MARKED_KEY_def)
  then have long: "too_long L"
    by (simp add: too_long_def MaxScanTokenSize_def)
  have nl: "CHR 0x0A \<notin> set L"
    unfolding L_def by (rule created_line(1) [OF ne]) (simp add: LAST_MARKED_KEY_def)
  have sm: "hpoon_set_mark [''_''] P (Some ''_'') (example_world None) = (Inr (), w2)"
    unfolding w2_def by (simp add: hpoon_set_mark_eq empty_world)
  have "store_file w2 = Some (concat (map (\<lambda>l. l @ [CHR 0x0A]) [L, L]))"
    unfolding w2_def using ne
    by (simp add: hpoon_set_mark_eq empty_world save_content L_def LAST_MARKED_KEY_def)
  moreover have "raw_lines (concat (map (\<lambda>l. l @ [CHR 0x0A]) [L, L])) = [L, L]"
    by (rule raw_lines_unlines) (simp add: nl)
  ultimately have "\<not> scannable w2"
    using long by (simp add: scannable_def store_content_def Scan_def)
  then have "fst (load_hpoon w2) = Inl ParseError"
    and "fst (hpoon_get_mark (Some ''_'') w2) = Inl ParseError"
    by (simp_all add: load_hpoon_eq hpoon_get_mark_eq)
  with sep show ?thesis
    unfolding P_def [symmetric] sm fst_conv snd_conv by simp
qed

end
